theory Spec2Isabelle
  imports Main "HOL-Library.Char_ord" "HOL-Library.List_Lexorder"
begin

section \<open>Text and the Python built-ins the program relies on\<close>

text \<open>
  Python text is modelled as \<open>string\<close>. The timetable fields and the query parameter are
  read as ASCII text; the Japanese constants of \<open>app.py\<close> (station names, line names, the
  duration suffix and the fare placeholder) are carried as their UTF-8 bytes and are only
  ever concatenated and copied, never parsed. Integers are Python's unbounded integers,
  hence \<open>int\<close>; \<open>//\<close> and \<open>%\<close> are floor division and its remainder, which is what
  \<open>div\<close> and \<open>mod\<close> are on \<open>int\<close>.
\<close>

datatype error = ValueError | KeyError

text \<open>Sequencing: an exception raised by the first computation leaves the whole.\<close>

definition and_then :: "error + 'a \<Rightarrow> ('a \<Rightarrow> error + 'b) \<Rightarrow> error + 'b" where
  "and_then x f = (case x of Inl e \<Rightarrow> Inl e | Inr v \<Rightarrow> f v)"

definition is_space :: "char \<Rightarrow> bool" where
  \<comment> \<open>the ASCII white space that \<open>int()\<close> skips: TAB, LF, VT, FF, CR and the blank\<close>
  "is_space c \<longleftrightarrow> c \<in> {CHR 0x09, CHR 0x0A, CHR 0x0B, CHR 0x0C, CHR 0x0D, CHR 0x20}"

definition is_digit :: "char \<Rightarrow> bool" where
  "is_digit c \<longleftrightarrow> 48 \<le> (of_char c :: nat) \<and> (of_char c :: nat) \<le> 57"

definition digit_val :: "char \<Rightarrow> nat" where
  "digit_val c = of_char c - 48"

definition digit_char :: "nat \<Rightarrow> char" where
  "digit_char n = char_of (48 + n)"

definition strip :: "string \<Rightarrow> string" where
  "strip s = rev (dropWhile is_space (rev (dropWhile is_space s)))"

text \<open>
  The digits of a decimal literal: a digit, then digits each optionally preceded by one
  underscore (\<open>1_000\<close> is accepted, \<open>1__0\<close>, \<open>_1\<close> and \<open>1_\<close> are not).
\<close>

fun scan_digits :: "nat \<Rightarrow> string \<Rightarrow> nat option" where
  "scan_digits acc [] = Some acc"
| "scan_digits acc [c] =
     (if is_digit c then Some (acc * 10 + digit_val c) else None)"
| "scan_digits acc (c # d # ds) =
     (if c = CHR ''_'' then
        (if is_digit d then scan_digits (acc * 10 + digit_val d) ds else None)
      else if is_digit c then scan_digits (acc * 10 + digit_val c) (d # ds)
      else None)"

definition decimal_literal :: "string \<Rightarrow> nat option" where
  "decimal_literal s =
     (case s of
        [] \<Rightarrow> None
      | c # cs \<Rightarrow> if is_digit c then scan_digits (digit_val c) cs else None)"

definition max_str_digits :: nat where
  \<comment> \<open>CPython's default limit on the digits of a decimal literal\<close>
  "max_str_digits = 4300"

text \<open>
  \<open>int(s)\<close> on text: surrounding white space is dropped, one sign is allowed, the rest is
  a decimal literal of at most \<open>max_str_digits\<close> digits. \<open>None\<close> stands for the
  \<open>ValueError\<close> that \<open>int\<close> raises. This is \<open>int\<close> on ASCII text only: Python also
  accepts white space and decimal digits beyond ASCII (a no-break space, full-width
  digits), which \<open>py_int\<close> rejects. Whenever \<open>py_int\<close> accepts a text, the text is ASCII
  and \<open>int\<close> returns the same number; a rejection says what \<open>int\<close> does only for a text
  that \<open>is_ascii\<close> holds of.
\<close>

definition is_ascii :: "string \<Rightarrow> bool" where
  "is_ascii s \<longleftrightarrow> list_all (\<lambda>c. (of_char c :: nat) < 128) s"

definition py_int :: "string \<Rightarrow> int option" where
  "py_int s =
     (case strip s of
        [] \<Rightarrow> None
      | c # cs \<Rightarrow>
          let neg = (c = CHR ''-'');
              body = (if c = CHR ''-'' \<or> c = CHR ''+'' then cs else c # cs)
          in if length (filter is_digit body) > max_str_digits then None
             else (case decimal_literal body of
                     None \<Rightarrow> None
                   | Some n \<Rightarrow> Some (if neg then - int n else int n)))"

text \<open>\<open>s.split(":")\<close>: the fields between the colons, an empty text giving one empty field.\<close>

fun split_acc :: "char \<Rightarrow> string \<Rightarrow> string \<Rightarrow> string list" where
  "split_acc d cur [] = [rev cur]"
| "split_acc d cur (c # cs) =
     (if c = d then rev cur # split_acc d [] cs else split_acc d (c # cur) cs)"

definition split :: "string \<Rightarrow> char \<Rightarrow> string list" where
  "split s d = split_acc d [] s"

text \<open>\<open>str(n)\<close> and the format specification \<open>02d\<close> (sign first, then zeros up to width 2).\<close>

fun str_nat :: "nat \<Rightarrow> string" where
  "str_nat n = (if n < 10 then [digit_char n] else str_nat (n div 10) @ [digit_char (n mod 10)])"

declare str_nat.simps [simp del]

definition str_int :: "int \<Rightarrow> string" where
  "str_int i = (if i < 0 then CHR ''-'' # str_nat (nat (- i)) else str_nat (nat i))"

definition format_02d :: "int \<Rightarrow> string" where
  "format_02d i =
     (if i < 0 then CHR ''-'' # str_nat (nat (- i))
      else if length (str_nat (nat i)) < 2 then CHR ''0'' # str_nat (nat i)
      else str_nat (nat i))"

section \<open>Time utilities\<close>

text \<open>
  \<^verbatim>\<open>h, m = map(int, hhmm.split(":")); return h * 60 + m\<close>
  Unpacking needs exactly two fields and \<open>int\<close> must accept both; every failure is a
  \<open>ValueError\<close>.
\<close>

definition parse_hhmm_to_minutes :: "string \<Rightarrow> error + int" where
  "parse_hhmm_to_minutes hhmm =
     (case map py_int (split hhmm CHR '':'') of
        [Some h, Some m] \<Rightarrow> Inr (h * 60 + m)
      | _ \<Rightarrow> Inl ValueError)"

definition minutes_to_hhmm :: "int \<Rightarrow> string" where
  "minutes_to_hhmm minutes =
     (let h = minutes div 60; m = minutes mod 60
      in format_02d h @ '':'' @ format_02d m)"

section \<open>Timetable data\<close>

text \<open>
  A train is one row of a timetable file: a dictionary with the two clock texts
  \<open>departure\<close> and \<open>arrival\<close>. A leg carries its station and line names and its trains.
\<close>

record train =
  departure :: string
  arrival :: string

record leg =
  leg_from :: string
  leg_to :: string
  leg_line :: string
  trains :: "train list"

record timetable =
  ichigaya_tameike :: leg
  tameike_shimbashi :: leg
  shimbashi_kamakura :: leg

definition ichigaya :: string where
  "ichigaya = [CHR 0xE5, CHR 0xB8, CHR 0x82, CHR 0xE3, CHR 0x83, CHR 0xB6, CHR 0xE8, CHR 0xB0, CHR 0xB7]"

definition tameike_sanno :: string where
  "tameike_sanno = [CHR 0xE6, CHR 0xBA, CHR 0x9C, CHR 0xE6, CHR 0xB1, CHR 0xA0, CHR 0xE5, CHR 0xB1,
     CHR 0xB1, CHR 0xE7, CHR 0x8E, CHR 0x8B]"

definition shimbashi :: string where
  "shimbashi = [CHR 0xE6, CHR 0x96, CHR 0xB0, CHR 0xE6, CHR 0xA9, CHR 0x8B]"

definition kamakura :: string where
  "kamakura = [CHR 0xE9, CHR 0x8E, CHR 0x8C, CHR 0xE5, CHR 0x80, CHR 0x89]"

definition yurakucho_namboku_line :: string where
  "yurakucho_namboku_line = [CHR 0xE6, CHR 0x9C, CHR 0x89, CHR 0xE6, CHR 0xA5, CHR 0xBD, CHR 0xE7,
     CHR 0x94, CHR 0xBA, CHR 0xE7, CHR 0xB7, CHR 0x9A, CHR 0xE2, CHR 0x86, CHR 0x92, CHR 0xE5, CHR 0x8D,
     CHR 0x97, CHR 0xE5, CHR 0x8C, CHR 0x97, CHR 0xE7, CHR 0xB7, CHR 0x9A]"

definition ginza_line :: string where
  "ginza_line = [CHR 0xE9, CHR 0x8A, CHR 0x80, CHR 0xE5, CHR 0xBA, CHR 0xA7, CHR 0xE7, CHR 0xB7, CHR 0x9A]"

definition yokosuka_line :: string where
  "yokosuka_line = [CHR 0xE6, CHR 0xA8, CHR 0xAA, CHR 0xE9, CHR 0xA0, CHR 0x88, CHR 0xE8, CHR 0xB3,
     CHR 0x80, CHR 0xE7, CHR 0xB7, CHR 0x9A]"

definition minutes_suffix :: string where
  \<comment> \<open>the character after the number in \<open>total_duration\<close>\<close>
  "minutes_suffix = [CHR 0xE5, CHR 0x88, CHR 0x86]"

definition fare_str :: string where
  "fare_str = [CHR 0xEF, CHR 0xBC, CHR 0x88, CHR 0xE6, CHR 0x96, CHR 0x99, CHR 0xE9, CHR 0x87, CHR 0x91,
     CHR 0xE6, CHR 0x9C, CHR 0xAA, CHR 0xE8, CHR 0xA8, CHR 0xAD, CHR 0xE5, CHR 0xAE, CHR 0x9A, CHR 0xEF,
     CHR 0xBC, CHR 0x89]"

text \<open>
  \<open>TIMETABLE\<close> is built once from the three timetable files; what \<open>load_timetable\<close>
  read from them is the parameter here.
\<close>

definition TIMETABLE :: "train list \<Rightarrow> train list \<Rightarrow> train list \<Rightarrow> timetable" where
  "TIMETABLE csv1 csv2 csv3 =
     \<lparr>ichigaya_tameike =
        \<lparr>leg_from = ichigaya, leg_to = tameike_sanno, leg_line = yurakucho_namboku_line,
         trains = csv1\<rparr>,
      tameike_shimbashi =
        \<lparr>leg_from = tameike_sanno, leg_to = shimbashi, leg_line = ginza_line, trains = csv2\<rparr>,
      shimbashi_kamakura =
        \<lparr>leg_from = shimbashi, leg_to = kamakura, leg_line = yokosuka_line, trains = csv3\<rparr>\<rparr>"

definition TRANSFER_MINUTES :: "(string \<times> int) list" where
  "TRANSFER_MINUTES = [(tameike_sanno, 5), (shimbashi, 7)]"

definition dict_get :: "(string \<times> int) list \<Rightarrow> string \<Rightarrow> error + int" where
  "dict_get d k = (case map_of d k of None \<Rightarrow> Inl KeyError | Some v \<Rightarrow> Inr v)"

section \<open>The next-train matcher\<close>

text \<open>
  The loop of \<open>find_next_train\<close>: the state is the candidate with its departure minute
  (both \<open>None\<close> before the first hit). A departure text that does not parse raises.
\<close>

fun find_next_loop :: "train list \<Rightarrow> int \<Rightarrow> (train \<times> int) option \<Rightarrow> error + (train \<times> int) option" where
  "find_next_loop [] earliest_departure_min cand = Inr cand"
| "find_next_loop (t # ts) earliest_departure_min cand =
     (case parse_hhmm_to_minutes (departure t) of
        Inl e \<Rightarrow> Inl e
      | Inr dep_min \<Rightarrow>
          if dep_min \<ge> earliest_departure_min then
            (case cand of
               None \<Rightarrow> find_next_loop ts earliest_departure_min (Some (t, dep_min))
             | Some (candidate, candidate_dep_min) \<Rightarrow>
                 if dep_min < candidate_dep_min
                 then find_next_loop ts earliest_departure_min (Some (t, dep_min))
                 else find_next_loop ts earliest_departure_min cand)
          else find_next_loop ts earliest_departure_min cand)"

definition find_next_train :: "train list \<Rightarrow> int \<Rightarrow> error + train option" where
  "find_next_train trs earliest_departure_min =
     (case find_next_loop trs earliest_departure_min None of
        Inl e \<Rightarrow> Inl e
      | Inr cand \<Rightarrow> Inr (map_option fst cand))"

section \<open>The route search\<close>

record transfer =
  tr_from :: string
  tr_to :: string
  tr_line :: string
  tr_departure :: string
  tr_arrival :: string

record route =
  departure_time :: string
  arrival_time :: string
  total_duration :: string
  fare :: string
  transfers :: "transfer list"

text \<open>
  The wall clock in Tokyo: the day (counted from some fixed day) and the time of day.
  Adding a \<open>timedelta\<close> of whole minutes carries into the hour and into the day.
\<close>

record datetime =
  day :: int
  hour :: int
  minute :: int
  second :: int

definition valid_datetime :: "datetime \<Rightarrow> bool" where
  "valid_datetime d \<longleftrightarrow>
     0 \<le> hour d \<and> hour d < 24 \<and> 0 \<le> minute d \<and> minute d < 60 \<and> 0 \<le> second d \<and> second d < 60"

definition minute_of_day :: "datetime \<Rightarrow> int" where
  \<comment> \<open>\<open>d.hour * 60 + d.minute\<close>\<close>
  "minute_of_day d = hour d * 60 + minute d"

definition add_minutes :: "datetime \<Rightarrow> int \<Rightarrow> datetime" where
  "add_minutes d k =
     (let total = hour d * 60 + minute d + k
      in d\<lparr>day := day d + total div 1440,
            hour := (total mod 1440) div 60,
            minute := total mod 60\<rparr>)"

record response =
  search_time_jst :: datetime
  departure_base_jst :: datetime
  max_offset_minutes :: int
  routes :: "route list"

text \<open>
  The query parameter: \<open>None\<close> when the request has no \<open>max_offset\<close>, else its text.
  \<^verbatim>\<open>
  try: max_offset = int(request.args.get("max_offset", 30))
  except ValueError: max_offset = 3
  if max_offset < 0: max_offset = 0
  if max_offset > 60: max_offset = 60
  \<close>
\<close>

definition effective_max_offset :: "string option \<Rightarrow> int" where
  "effective_max_offset arg =
     (let max_offset = (case arg of
                          None \<Rightarrow> 30
                        | Some s \<Rightarrow> (case py_int s of None \<Rightarrow> 3 | Some n \<Rightarrow> n));
          max_offset = (if max_offset < 0 then 0 else max_offset);
          max_offset = (if max_offset > 60 then 60 else max_offset)
      in max_offset)"

text \<open>
  The body of the loop over the first leg for one train \<open>t1\<close>: \<open>Inr None\<close> is
  \<open>continue\<close> (nothing is appended), \<open>Inr (Some r)\<close> appends \<open>r\<close>, \<open>Inl\<close> is an
  exception leaving the request.
\<close>

definition candidate_route :: "timetable \<Rightarrow> int \<Rightarrow> int \<Rightarrow> train \<Rightarrow> error + route option" where
  "candidate_route tt base_minutes latest_minutes t1 =
     (let first_leg = ichigaya_tameike tt;
          second_leg = tameike_shimbashi tt;
          third_leg = shimbashi_kamakura tt
      in
      and_then (parse_hhmm_to_minutes (departure t1)) (\<lambda>dep1_min.
      if dep1_min < base_minutes \<or> dep1_min > latest_minutes then Inr None else
      and_then (parse_hhmm_to_minutes (arrival t1)) (\<lambda>arr1_min.
      and_then (dict_get TRANSFER_MINUTES tameike_sanno) (\<lambda>wait_a.
      and_then (find_next_train (trains second_leg) (arr1_min + wait_a)) (\<lambda>found2.
      case found2 of None \<Rightarrow> Inr None | Some t2 \<Rightarrow>
      and_then (parse_hhmm_to_minutes (departure t2)) (\<lambda>dep2_min.
      and_then (parse_hhmm_to_minutes (arrival t2)) (\<lambda>arr2_min.
      and_then (dict_get TRANSFER_MINUTES shimbashi) (\<lambda>wait_b.
      and_then (find_next_train (trains third_leg) (arr2_min + wait_b)) (\<lambda>found3.
      case found3 of None \<Rightarrow> Inr None | Some t3 \<Rightarrow>
      and_then (parse_hhmm_to_minutes (departure t3)) (\<lambda>dep3_min.
      and_then (parse_hhmm_to_minutes (arrival t3)) (\<lambda>arr3_min.
      Inr (Some
        \<lparr>departure_time = minutes_to_hhmm dep1_min,
         arrival_time = minutes_to_hhmm arr3_min,
         total_duration = str_int (arr3_min - dep1_min) @ minutes_suffix,
         fare = fare_str,
         transfers =
           [\<lparr>tr_from = leg_from first_leg, tr_to = leg_to first_leg, tr_line = leg_line first_leg,
             tr_departure = departure t1, tr_arrival = arrival t1\<rparr>,
            \<lparr>tr_from = leg_from second_leg, tr_to = leg_to second_leg, tr_line = leg_line second_leg,
             tr_departure = departure t2, tr_arrival = arrival t2\<rparr>,
            \<lparr>tr_from = leg_from third_leg, tr_to = leg_to third_leg, tr_line = leg_line third_leg,
             tr_departure = departure t3, tr_arrival = arrival t3\<rparr>]\<rparr>))))))))))))"

fun routes_loop :: "timetable \<Rightarrow> int \<Rightarrow> int \<Rightarrow> train list \<Rightarrow> route list \<Rightarrow> error + route list" where
  "routes_loop tt base_minutes latest_minutes [] acc = Inr acc"
| "routes_loop tt base_minutes latest_minutes (t1 # ts) acc =
     and_then (candidate_route tt base_minutes latest_minutes t1) (\<lambda>produced.
       case produced of
         None \<Rightarrow> routes_loop tt base_minutes latest_minutes ts acc
       | Some r \<Rightarrow> routes_loop tt base_minutes latest_minutes ts (acc @ [r]))"

text \<open>
  The endpoint, as a function of the timetable, the clock reading \<open>now_jst\<close> and the query
  parameter. \<open>routes.sort(key=...)\<close> is a stable sort on the text \<open>departure_time\<close>, compared
  as Python compares text (character by character, a proper prefix first). The two echoed
  instants are kept as values: their \<open>strftime\<close> rendering is not modelled.
\<close>

definition api_routes :: "timetable \<Rightarrow> datetime \<Rightarrow> string option \<Rightarrow> error + response" where
  "api_routes tt now_jst arg =
     (let max_offset = effective_max_offset arg;
          departure_base = now_jst;
          latest_departure = add_minutes departure_base max_offset;
          base_minutes = minute_of_day departure_base;
          latest_minutes = minute_of_day latest_departure
      in case routes_loop tt base_minutes latest_minutes (trains (ichigaya_tameike tt)) [] of
           Inl e \<Rightarrow> Inl e
         | Inr rs \<Rightarrow>
             Inr \<lparr>search_time_jst = now_jst,
                  departure_base_jst = departure_base,
                  max_offset_minutes = max_offset,
                  routes = sort_key departure_time rs\<rparr>)"

section \<open>Reading inputs and results\<close>

text \<open>
  The trains of an itinerary, read back from its three transfer records, in leg order.
\<close>

definition leg_trains_of :: "route \<Rightarrow> train list" where
  "leg_trains_of r =
     map (\<lambda>x. \<lparr>departure = tr_departure x, arrival = tr_arrival x\<rparr>) (transfers r)"

text \<open>
  A clock text in the timetable format: two digits, a colon, two digits, with the hour at
  most 23 and the minute at most 59.
\<close>

definition is_clock_text :: "string \<Rightarrow> bool" where
  "is_clock_text s \<longleftrightarrow>
     length s = 5 \<and> is_digit (s ! 0) \<and> is_digit (s ! 1) \<and> s ! 2 = CHR '':'' \<and>
     is_digit (s ! 3) \<and> is_digit (s ! 4) \<and>
     digit_val (s ! 0) * 10 + digit_val (s ! 1) \<le> 23 \<and>
     digit_val (s ! 3) * 10 + digit_val (s ! 4) \<le> 59"


text \<open>What one pass of the loop body adds to \<open>routes\<close>: one itinerary or nothing.\<close>

definition routes_from :: "timetable \<Rightarrow> int \<Rightarrow> int \<Rightarrow> train \<Rightarrow> route list" where
  "routes_from tt base_minutes latest_minutes t1 =
     (case candidate_route tt base_minutes latest_minutes t1 of
        Inl e \<Rightarrow> []
      | Inr produced \<Rightarrow> (case produced of None \<Rightarrow> [] | Some r \<Rightarrow> [r]))"

text \<open>
  A small timetable used to run the search on concrete data: one train on the first leg,
  two on each of the others, and a clock reading of 07:00.
\<close>

definition scenario_timetable :: timetable where
  "scenario_timetable =
     TIMETABLE
       [\<lparr>departure = ''07:00'', arrival = ''07:12''\<rparr>]
       [\<lparr>departure = ''07:17'', arrival = ''07:30''\<rparr>,
        \<lparr>departure = ''07:40'', arrival = ''07:55''\<rparr>]
       [\<lparr>departure = ''07:37'', arrival = ''08:05''\<rparr>,
        \<lparr>departure = ''08:10'', arrival = ''08:40''\<rparr>]"

definition scenario_now :: datetime where
  "scenario_now = \<lparr>day = 0, hour = 7, minute = 0, second = 0\<rparr>"

definition scenario_route :: route where
  "scenario_route =
     \<lparr>departure_time = ''07:00'',
      arrival_time = ''08:05'',
      total_duration = ''65'' @ minutes_suffix,
      fare = fare_str,
      transfers =
        [\<lparr>tr_from = ichigaya, tr_to = tameike_sanno, tr_line = yurakucho_namboku_line,
          tr_departure = ''07:00'', tr_arrival = ''07:12''\<rparr>,
         \<lparr>tr_from = tameike_sanno, tr_to = shimbashi, tr_line = ginza_line,
          tr_departure = ''07:17'', tr_arrival = ''07:30''\<rparr>,
         \<lparr>tr_from = shimbashi, tr_to = kamakura, tr_line = yokosuka_line,
          tr_departure = ''07:37'', tr_arrival = ''08:05''\<rparr>]\<rparr>"

text \<open>
  The same timetable with a second, earlier-listed but later-departing train on the first
  leg, so that the first leg is not in departure order.
\<close>

definition unsorted_timetable :: timetable where
  "unsorted_timetable =
     TIMETABLE
       [\<lparr>departure = ''07:20'', arrival = ''07:32''\<rparr>,
        \<lparr>departure = ''07:00'', arrival = ''07:12''\<rparr>]
       [\<lparr>departure = ''07:17'', arrival = ''07:30''\<rparr>,
        \<lparr>departure = ''07:40'', arrival = ''07:55''\<rparr>]
       [\<lparr>departure = ''07:37'', arrival = ''08:05''\<rparr>,
        \<lparr>departure = ''08:10'', arrival = ''08:40''\<rparr>]"

text \<open>The small timetable with the row of its first leg listed twice.\<close>

definition duplicated_timetable :: timetable where
  "duplicated_timetable =
     TIMETABLE
       [\<lparr>departure = ''07:00'', arrival = ''07:12''\<rparr>,
        \<lparr>departure = ''07:00'', arrival = ''07:12''\<rparr>]
       [\<lparr>departure = ''07:17'', arrival = ''07:30''\<rparr>,
        \<lparr>departure = ''07:40'', arrival = ''07:55''\<rparr>]
       [\<lparr>departure = ''07:37'', arrival = ''08:05''\<rparr>,
        \<lparr>departure = ''08:10'', arrival = ''08:40''\<rparr>]"

definition later_route :: route where
  "later_route =
     \<lparr>departure_time = ''07:20'',
      arrival_time = ''08:40'',
      total_duration = ''80'' @ minutes_suffix,
      fare = fare_str,
      transfers =
        [\<lparr>tr_from = ichigaya, tr_to = tameike_sanno, tr_line = yurakucho_namboku_line,
          tr_departure = ''07:20'', tr_arrival = ''07:32''\<rparr>,
         \<lparr>tr_from = tameike_sanno, tr_to = shimbashi, tr_line = ginza_line,
          tr_departure = ''07:40'', tr_arrival = ''07:55''\<rparr>,
         \<lparr>tr_from = shimbashi, tr_to = kamakura, tr_line = yokosuka_line,
          tr_departure = ''08:10'', tr_arrival = ''08:40''\<rparr>]\<rparr>"

section \<open>Decimal digits, parsing and formatting\<close>


lemma of_char_digit_char: "n < 10 \<Longrightarrow> (of_char (digit_char n) :: nat) = 48 + n"
  by (simp add: digit_char_def)

lemma is_digit_digit_char: "n < 10 \<Longrightarrow> is_digit (digit_char n)"
  by (simp add: is_digit_def of_char_digit_char)

lemma digit_val_digit_char: "n < 10 \<Longrightarrow> digit_val (digit_char n) = n"
  by (simp add: digit_val_def of_char_digit_char)

lemma digit_char_digit_val: "is_digit c \<Longrightarrow> digit_char (digit_val c) = c"
  by (simp add: is_digit_def digit_val_def digit_char_def)

lemma digit_val_less: "is_digit c \<Longrightarrow> digit_val c < 10"
  by (auto simp add: is_digit_def digit_val_def)

lemma is_digit_not_special:
  assumes "is_digit c"
  shows "c \<noteq> CHR '':''" "c \<noteq> CHR ''-''" "c \<noteq> CHR ''+''" "c \<noteq> CHR ''_''" "\<not> is_space c"
  using assms by (auto simp add: is_digit_def is_space_def)

lemma split_acc_no_sep: "d \<notin> set xs \<Longrightarrow> split_acc d cur xs = [rev cur @ xs]"
  by (induction xs arbitrary: cur) auto

lemma split_acc_sep:
  "d \<notin> set xs \<Longrightarrow> split_acc d cur (xs @ d # ys) = (rev cur @ xs) # split_acc d [] ys"
  by (induction xs arbitrary: cur) auto

lemma split_two_fields:
  "CHR '':'' \<notin> set xs \<Longrightarrow> CHR '':'' \<notin> set ys \<Longrightarrow> split (xs @ CHR '':'' # ys) CHR '':'' = [xs, ys]"
  by (simp add: split_def split_acc_sep split_acc_no_sep)

lemma scan_digits_all:
  "\<forall>c \<in> set ds. is_digit c \<Longrightarrow>
   scan_digits acc ds = Some (foldl (\<lambda>a c. a * 10 + digit_val c) acc ds)"
proof (induction acc ds rule: scan_digits.induct)
  case (1 acc)
  then show ?case by simp
next
  case (2 acc c)
  then show ?case by simp
next
  case (3 acc c d ds)
  then show ?case by (simp add: is_digit_not_special)
qed

lemma str_nat_small: "n < 10 \<Longrightarrow> str_nat n = [digit_char n]"
  by (subst str_nat.simps) simp

lemma str_nat_step: "\<not> n < 10 \<Longrightarrow> str_nat n = str_nat (n div 10) @ [digit_char (n mod 10)]"
  by (subst str_nat.simps) simp

lemma str_nat_digits: "\<forall>c \<in> set (str_nat n). is_digit c"
proof (induction n rule: str_nat.induct)
  case (1 n)
  show ?case
  proof (cases "n < 10")
    case True
    then show ?thesis by (simp add: str_nat_small is_digit_digit_char)
  next
    case False
    with 1 show ?thesis by (simp add: str_nat_step is_digit_digit_char)
  qed
qed

lemma str_nat_value: "foldl (\<lambda>a c. a * 10 + digit_val c) 0 (str_nat n) = n"
proof (induction n rule: str_nat.induct)
  case (1 n)
  show ?case
  proof (cases "n < 10")
    case True
    then show ?thesis by (simp add: str_nat_small digit_val_digit_char)
  next
    case False
    with 1 show ?thesis by (simp add: str_nat_step digit_val_digit_char)
  qed
qed

lemma str_nat_nonempty: "str_nat n \<noteq> []"
  by (cases "n < 10") (simp_all add: str_nat_small str_nat_step)

lemma str_nat_two: "10 \<le> n \<Longrightarrow> n < 100 \<Longrightarrow> str_nat n = [digit_char (n div 10), digit_char (n mod 10)]"
  by (simp add: str_nat_step str_nat_small)

lemma str_nat_length_ge2: "10 \<le> n \<Longrightarrow> 2 \<le> length (str_nat n)"
proof -
  assume "10 \<le> n"
  then have "str_nat n = str_nat (n div 10) @ [digit_char (n mod 10)]"
    by (simp add: str_nat_step)
  moreover have "1 \<le> length (str_nat (n div 10))"
    using str_nat_nonempty [of "n div 10"] by (cases "str_nat (n div 10)") auto
  ultimately show ?thesis by simp
qed

lemma decimal_literal_digits:
  assumes "ds \<noteq> []" "\<forall>c \<in> set ds. is_digit c"
  shows "decimal_literal ds = Some (foldl (\<lambda>a c. a * 10 + digit_val c) 0 ds)"
proof (cases ds)
  case Nil
  with assms show ?thesis by simp
next
  case (Cons c cs)
  with assms show ?thesis by (simp add: decimal_literal_def scan_digits_all)
qed

lemma decimal_literal_str_nat: "decimal_literal (str_nat n) = Some n"
  by (simp add: decimal_literal_digits str_nat_nonempty str_nat_digits str_nat_value)

lemma digit_char_zero: "digit_char 0 = CHR ''0''"
  by code_simp

lemma format_02d_two:
  assumes "0 \<le> i" "i < 100"
  shows "format_02d i = [digit_char (nat i div 10), digit_char (nat i mod 10)]"
proof (cases "nat i < 10")
  case True
  then have "str_nat (nat i) = [digit_char (nat i)]" by (rule str_nat_small)
  with True assms show ?thesis by (simp add: format_02d_def digit_char_zero)
next
  case False
  with assms have "str_nat (nat i) = [digit_char (nat i div 10), digit_char (nat i mod 10)]"
    by (intro str_nat_two) auto
  with assms show ?thesis by (simp add: format_02d_def)
qed

lemma format_02d_big:
  assumes "10 \<le> i"
  shows "format_02d i = str_nat (nat i)"
proof -
  have "2 \<le> length (str_nat (nat i))"
    using assms by (intro str_nat_length_ge2) auto
  with assms show ?thesis by (simp add: format_02d_def)
qed


lemma strip_id:
  assumes "s \<noteq> []" "\<not> is_space (hd s)" "\<not> is_space (last s)"
  shows "strip s = s"
proof -
  from assms have "dropWhile is_space s = s"
    by (cases s) auto
  moreover from assms have "dropWhile is_space (rev s) = rev s"
    by (cases "rev s") (auto simp add: last_rev hd_rev)
  ultimately show ?thesis by (simp add: strip_def)
qed

lemma py_int_digits:
  assumes "ds \<noteq> []" "\<forall>c \<in> set ds. is_digit c" "length ds \<le> max_str_digits"
  shows "py_int ds = Some (int (foldl (\<lambda>a c. a * 10 + digit_val c) 0 ds))"
proof -
  from assms obtain c cs where ds: "ds = c # cs" by (cases ds) auto
  from assms have "is_digit (hd ds)" "is_digit (last ds)" by auto
  then have "strip ds = ds"
    using assms(1) by (intro strip_id) (auto simp add: is_digit_not_special)
  moreover have "c \<noteq> CHR ''-''" "c \<noteq> CHR ''+''"
    using assms(2) ds by (auto simp add: is_digit_not_special)
  moreover have "filter is_digit ds = ds"
    using assms(2) by (induction ds) auto
  moreover note decimal_literal_digits [OF assms(1,2)]
  ultimately show ?thesis
    using assms(3) ds by (simp add: py_int_def)
qed

lemma py_int_two_digits:
  assumes "is_digit a" "is_digit b"
  shows "py_int [a, b] = Some (int (digit_val a * 10 + digit_val b))"
  using py_int_digits [of "[a, b]"] assms by (simp add: max_str_digits_def)

lemma parse_two_by_two:
  assumes "is_digit a" "is_digit b" "is_digit d" "is_digit e"
  shows "parse_hhmm_to_minutes [a, b, CHR '':'', d, e] =
         Inr (int (digit_val a * 10 + digit_val b) * 60 + int (digit_val d * 10 + digit_val e))"
proof -
  have "split ([a, b] @ CHR '':'' # [d, e]) CHR '':'' = [[a, b], [d, e]]"
    using assms by (intro split_two_fields) (auto simp add: is_digit_def)
  then show ?thesis
    using assms by (simp add: parse_hhmm_to_minutes_def py_int_two_digits)
qed

lemma minutes_to_hhmm_in_day:
  assumes "h < 100" "m < 60"
  shows "minutes_to_hhmm (int h * 60 + int m) =
         [digit_char (h div 10), digit_char (h mod 10), CHR '':'',
          digit_char (m div 10), digit_char (m mod 10)]"
proof -
  have d: "(int h * 60 + int m) div 60 = int h" and r: "(int h * 60 + int m) mod 60 = int m"
    using assms by auto
  have "format_02d (int h) = [digit_char (h div 10), digit_char (h mod 10)]"
    using format_02d_two [of "int h"] assms by simp
  moreover have "format_02d (int m) = [digit_char (m div 10), digit_char (m mod 10)]"
    using format_02d_two [of "int m"] assms by simp
  ultimately show ?thesis
    unfolding minutes_to_hhmm_def Let_def d r by simp
qed


section \<open>Time utilities: the round trip\<close>

text \<open>
  C7. For every clock text \<open>s\<close> made of two zero-padded two-digit fields with hour at most
  23 and minute at most 59, parsing \<open>s\<close> succeeds and formatting the minutes obtained gives
  \<open>s\<close> back: \<open>minutes_to_hhmm (parse_hhmm_to_minutes s) = s\<close>.
\<close>

theorem clock_text_round_trip:
  assumes "is_clock_text s"
  shows "map_sum id minutes_to_hhmm (parse_hhmm_to_minutes s) = Inr s"
proof -
  from assms have len: "length s = 5" by (simp add: is_clock_text_def)
  then obtain a b c d e where s: "s = [a, b, c, d, e]"
    by (auto simp add: length_Suc_conv eval_nat_numeral)
  from assms s have dg: "is_digit a" "is_digit b" "is_digit d" "is_digit e" and c: "c = CHR '':''"
    and rng: "digit_val a * 10 + digit_val b \<le> 23" "digit_val d * 10 + digit_val e \<le> 59"
    by (simp_all add: is_clock_text_def)
  let ?h = "digit_val a * 10 + digit_val b" and ?m = "digit_val d * 10 + digit_val e"
  have p: "parse_hhmm_to_minutes s = Inr (int ?h * 60 + int ?m)"
    using parse_two_by_two [OF dg] s c by simp
  have lt: "digit_val a < 10" "digit_val b < 10" "digit_val d < 10" "digit_val e < 10"
    using dg by (simp_all add: digit_val_less)
  have "minutes_to_hhmm (int ?h * 60 + int ?m) =
        [digit_char (?h div 10), digit_char (?h mod 10), CHR '':'',
         digit_char (?m div 10), digit_char (?m mod 10)]"
    using rng by (intro minutes_to_hhmm_in_day) auto
  moreover have "?h div 10 = digit_val a" "?h mod 10 = digit_val b"
    "?m div 10 = digit_val d" "?m mod 10 = digit_val e"
    using lt by auto
  ultimately have "minutes_to_hhmm (int ?h * 60 + int ?m) = s"
    using dg s c by (simp add: digit_char_digit_val)
  with p show ?thesis by simp
qed

theorem clock_text_round_trip_witness:
  "is_clock_text ''07:05'' \<and>
   map_sum id minutes_to_hhmm (parse_hhmm_to_minutes ''07:05'') = Inr ''07:05''"
proof -
  have h: "is_clock_text ''07:05''" by code_simp
  show ?thesis using h clock_text_round_trip [OF h] by simp
qed

section \<open>Time utilities: minutes beyond one day\<close>

lemma decimal_literal_two:
  assumes "m < 100"
  shows "decimal_literal [digit_char (m div 10), digit_char (m mod 10)] = Some m"
proof -
  have lt: "m div 10 < 10" "m mod 10 < 10" using assms by auto
  then show ?thesis
    by (simp add: decimal_literal_def is_digit_digit_char digit_val_digit_char)
qed

lemma digits_no_colon: "\<forall>c \<in> set ds. is_digit c \<Longrightarrow> CHR '':'' \<notin> set ds"
  by (auto simp add: is_digit_def)


text \<open>
  C9. For every \<open>minutes \<ge> 1440\<close> the text \<open>minutes_to_hhmm minutes\<close> has two fields around
  one colon: the hour field is the decimal numeral of \<open>minutes div 60\<close>, which is at least
  24 and so has at least two digits, and the minute field is the two-digit numeral of
  \<open>minutes mod 60\<close>. The hour is not reduced modulo 24 and nothing is clamped.
\<close>

theorem minutes_to_hhmm_beyond_day:
  assumes "1440 \<le> minutes"
  shows "24 \<le> minutes div 60 \<and>
         (let fields = split (minutes_to_hhmm minutes) CHR '':''
          in length fields = 2 \<and>
             decimal_literal (fields ! 0) = Some (nat (minutes div 60)) \<and>
             decimal_literal (fields ! 1) = Some (nat (minutes mod 60)) \<and>
             2 \<le> length (fields ! 0) \<and> length (fields ! 1) = 2 \<and>
             list_all is_digit (fields ! 0) \<and> list_all is_digit (fields ! 1))"
proof -
  let ?h = "nat (minutes div 60)" and ?m = "nat (minutes mod 60)"
  let ?M = "[digit_char (?m div 10), digit_char (?m mod 10)]"
  have h24: "24 \<le> minutes div 60" using assms by linarith
  have m60: "?m < 60" by simp
  have fh: "format_02d (minutes div 60) = str_nat ?h"
    using h24 by (intro format_02d_big) linarith
  have fm: "format_02d (minutes mod 60) = ?M"
    by (intro format_02d_two) simp_all
  have shape: "minutes_to_hhmm minutes = str_nat ?h @ CHR '':'' # ?M"
    unfolding minutes_to_hhmm_def Let_def fh fm by simp
  have dM: "is_digit (digit_char (?m div 10))" "is_digit (digit_char (?m mod 10))"
    using m60 by (simp_all add: is_digit_digit_char)
  have dH: "\<forall>c \<in> set (str_nat ?h). is_digit c" by (rule str_nat_digits)
  have "CHR '':'' \<notin> set (str_nat ?h)" "CHR '':'' \<notin> set ?M"
    using dH dM is_digit_not_special(1) by (simp add: digits_no_colon, fastforce)
  then have fields: "split (minutes_to_hhmm minutes) CHR '':'' = [str_nat ?h, ?M]"
    unfolding shape by (rule split_two_fields)
  have lh: "2 \<le> length (str_nat ?h)"
    using h24 by (intro str_nat_length_ge2) linarith
  have vM: "decimal_literal ?M = Some ?m"
    using m60 by (intro decimal_literal_two) simp
  show ?thesis
    using h24 lh vM dH dM by (simp add: fields decimal_literal_str_nat list_all_iff)
qed

theorem minutes_to_hhmm_beyond_day_witness:
  "(1440::int) \<le> 1500 \<and> minutes_to_hhmm 1500 = ''25:00'' \<and> minutes_to_hhmm 6000 = ''100:00''"
proof -
  have h: "(1440::int) \<le> 1500" by simp
  have "minutes_to_hhmm 1500 = ''25:00''" by code_simp
  moreover have "minutes_to_hhmm 6000 = ''100:00''" by code_simp
  ultimately show ?thesis using h minutes_to_hhmm_beyond_day [OF h] by simp
qed

section \<open>The next-train matcher: what the scan returns\<close>

text \<open>
  In the lemmas below \<open>dep\<close> reads the departure minute of every train of the list: the
  hypothesis says that each departure text parses, to \<open>dep t\<close>.
\<close>

lemma find_next_loop_total:
  "\<forall>t \<in> set ts. parse_hhmm_to_minutes (departure t) = Inr (dep t) \<Longrightarrow>
   \<exists>r. find_next_loop ts e cand = Inr r"
  by (induction ts arbitrary: cand) (auto split: option.splits)

lemma find_next_loop_None:
  "\<forall>t \<in> set ts. parse_hhmm_to_minutes (departure t) = Inr (dep t) \<Longrightarrow>
   find_next_loop ts e cand = Inr None \<longleftrightarrow> cand = None \<and> (\<forall>t \<in> set ts. dep t < e)"
  by (induction ts arbitrary: cand) (auto split: option.splits)

lemma find_next_loop_Some:
  "\<forall>t \<in> set ts. parse_hhmm_to_minutes (departure t) = Inr (dep t) \<Longrightarrow>
   find_next_loop ts e cand = Inr (Some (t, d)) \<Longrightarrow>
   (cand = Some (t, d) \<and> (\<forall>u \<in> set ts. e \<le> dep u \<longrightarrow> d \<le> dep u)) \<or>
   (d = dep t \<and> e \<le> d \<and> t \<in> set ts \<and> List.find (\<lambda>u. dep u = d) ts = Some t \<and>
    (\<forall>u \<in> set ts. e \<le> dep u \<longrightarrow> d \<le> dep u) \<and>
    (\<forall>c cd. cand = Some (c, cd) \<longrightarrow> d < cd))"
proof (induction ts arbitrary: cand)
  case Nil
  then show ?case by simp
next
  case (Cons t0 ts)
  have p0: "parse_hhmm_to_minutes (departure t0) = Inr (dep t0)"
    and rest: "\<forall>t \<in> set ts. parse_hhmm_to_minutes (departure t) = Inr (dep t)"
    using Cons.prems(1) by simp_all
  note IH = Cons.IH [OF rest]
  show ?case
  proof (cases "e \<le> dep t0")
    case False
    with Cons.prems(2) p0 have "find_next_loop ts e cand = Inr (Some (t, d))" by simp
    from IH [OF this] False show ?thesis by auto
  next
    case True
    show ?thesis
    proof (cases cand)
      case None
      with Cons.prems(2) p0 True
      have "find_next_loop ts e (Some (t0, dep t0)) = Inr (Some (t, d))" by simp
      from IH [OF this] None True show ?thesis by auto
    next
      case (Some p)
      obtain c cd where p: "p = (c, cd)" by (cases p)
      show ?thesis
      proof (cases "dep t0 < cd")
        case lt: True
        with Cons.prems(2) p0 True Some p
        have "find_next_loop ts e (Some (t0, dep t0)) = Inr (Some (t, d))" by simp
        from IH [OF this] Some p True lt show ?thesis by auto
      next
        case ge: False
        with Cons.prems(2) p0 True Some p
        have "find_next_loop ts e cand = Inr (Some (t, d))" by simp
        from IH [OF this] Some p True ge show ?thesis by auto
      qed
    qed
  qed
qed


lemma find_next_train_total:
  assumes "\<forall>t \<in> set trs. parse_hhmm_to_minutes (departure t) = Inr (dep t)"
  shows "\<exists>r. find_next_train trs e = Inr r"
  using find_next_loop_total [OF assms, of e None]
  by (auto simp add: find_next_train_def)

lemma find_next_train_None:
  assumes "\<forall>t \<in> set trs. parse_hhmm_to_minutes (departure t) = Inr (dep t)"
  shows "find_next_train trs e = Inr None \<longleftrightarrow> (\<forall>t \<in> set trs. dep t < e)"
  using find_next_loop_None [OF assms, of e None]
  by (auto simp add: find_next_train_def split: sum.splits)

lemma find_next_train_Some:
  assumes "\<forall>t \<in> set trs. parse_hhmm_to_minutes (departure t) = Inr (dep t)"
    and "find_next_train trs e = Inr (Some t)"
  shows "t \<in> set trs" "e \<le> dep t" "\<forall>u \<in> set trs. e \<le> dep u \<longrightarrow> dep t \<le> dep u"
    "List.find (\<lambda>u. dep u = dep t) trs = Some t"
proof -
  from assms(2) obtain d where "find_next_loop trs e None = Inr (Some (t, d))"
    by (auto simp add: find_next_train_def split: sum.splits)
  from find_next_loop_Some [OF assms(1) this]
  show "t \<in> set trs" "e \<le> dep t" "\<forall>u \<in> set trs. e \<le> dep u \<longrightarrow> dep t \<le> dep u"
    "List.find (\<lambda>u. dep u = dep t) trs = Some t"
    by auto
qed

lemma find_next_train_order_free:
  assumes "\<forall>t \<in> set trs. parse_hhmm_to_minutes (departure t) = Inr (dep t)"
    and "set trs' = set trs"
  shows "map_sum id (map_option dep) (find_next_train trs' e) =
         map_sum id (map_option dep) (find_next_train trs e)"
proof -
  from assms have rd': "\<forall>t \<in> set trs'. parse_hhmm_to_minutes (departure t) = Inr (dep t)"
    by simp
  obtain r where r: "find_next_train trs e = Inr r"
    using find_next_train_total [OF assms(1)] by blast
  obtain r' where r': "find_next_train trs' e = Inr r'"
    using find_next_train_total [OF rd'] by blast
  have "map_option dep r' = map_option dep r"
  proof (cases r)
    case None
    with r have "\<forall>t \<in> set trs. dep t < e"
      using find_next_train_None [OF assms(1)] by simp
    with assms(2) have "find_next_train trs' e = Inr None"
      using find_next_train_None [OF rd'] by simp
    with r' None show ?thesis by simp
  next
    case (Some t)
    note a = find_next_train_Some [OF assms(1) r [unfolded Some]]
    show ?thesis
    proof (cases r')
      case None
      with r' have "\<forall>u \<in> set trs'. dep u < e"
        using find_next_train_None [OF rd'] by simp
      with a(1,2) assms(2) show ?thesis by fastforce
    next
      case (Some t')
      note b = find_next_train_Some [OF rd' r' [unfolded Some]]
      from a(1,2) b(3) assms(2) have "dep t' \<le> dep t" by simp
      moreover from b(1,2) a(3) assms(2) have "dep t \<le> dep t'" by simp
      ultimately show ?thesis using Some \<open>r = Some t\<close> by simp
    qed
  qed
  with r r' show ?thesis by simp
qed


text \<open>
  C1. For every list of trains whose departure texts parse and every bound \<open>e\<close>,
  \<open>find_next_train\<close> returns; it returns \<open>None\<close> exactly when no train departs at or after
  \<open>e\<close> (so for the empty list and for a bound above every departure); a returned train is in
  the list, departs at or after \<open>e\<close>, departs no later than any other such train, and is the
  first train of the list with its departure minute; and the departure minute returned is
  the same for every list with the same trains, whatever their order.
\<close>

theorem find_next_train_earliest:
  assumes "\<forall>t \<in> set trs. parse_hhmm_to_minutes (departure t) = Inr (dep t)"
  shows "(\<exists>r. find_next_train trs e = Inr r) \<and>
         (find_next_train trs e = Inr None \<longleftrightarrow> (\<forall>t \<in> set trs. dep t < e)) \<and>
         (\<forall>t. find_next_train trs e = Inr (Some t) \<longrightarrow>
              t \<in> set trs \<and> e \<le> dep t \<and>
              (\<forall>u \<in> set trs. e \<le> dep u \<longrightarrow> dep t \<le> dep u) \<and>
              List.find (\<lambda>u. dep u = dep t) trs = Some t) \<and>
         (\<forall>trs'. set trs' = set trs \<longrightarrow>
              map_sum id (map_option dep) (find_next_train trs' e) =
              map_sum id (map_option dep) (find_next_train trs e))"
  using find_next_train_total [OF assms] find_next_train_None [OF assms]
    find_next_train_Some [OF assms] find_next_train_order_free [OF assms]
  by blast


theorem find_next_train_earliest_witness:
  "parse_hhmm_to_minutes ''07:40'' = Inr 460 \<and>
   parse_hhmm_to_minutes ''07:17'' = Inr 437 \<and>
   find_next_train [\<lparr>departure = ''07:40'', arrival = ''07:55''\<rparr>,
                    \<lparr>departure = ''07:17'', arrival = ''07:30''\<rparr>,
                    \<lparr>departure = ''07:17'', arrival = ''07:31''\<rparr>] 437 =
     Inr (Some \<lparr>departure = ''07:17'', arrival = ''07:30''\<rparr>) \<and>
   find_next_train [\<lparr>departure = ''07:40'', arrival = ''07:55''\<rparr>,
                    \<lparr>departure = ''07:17'', arrival = ''07:30''\<rparr>,
                    \<lparr>departure = ''07:17'', arrival = ''07:31''\<rparr>] 461 = Inr None"
proof -
  let ?trs = "[\<lparr>departure = ''07:40'', arrival = ''07:55''\<rparr>,
               \<lparr>departure = ''07:17'', arrival = ''07:30''\<rparr>,
               \<lparr>departure = ''07:17'', arrival = ''07:31''\<rparr>]"
  let ?dep = "\<lambda>t. if departure t = ''07:40'' then 460 else (437::int)"
  have p1: "parse_hhmm_to_minutes ''07:40'' = Inr 460" by code_simp
  have p2: "parse_hhmm_to_minutes ''07:17'' = Inr 437" by code_simp
  have h: "\<forall>t \<in> set ?trs. parse_hhmm_to_minutes (departure t) = Inr (?dep t)"
    by (simp add: p1 p2)
  have a: "find_next_train ?trs 437 = Inr (Some \<lparr>departure = ''07:17'', arrival = ''07:30''\<rparr>)"
    by (simp add: find_next_train_def p1 p2)
  have "find_next_train ?trs 461 = Inr None"
    using find_next_train_earliest [OF h, of 461] by simp
  with p1 p2 a show ?thesis by blast
qed

section \<open>The route search: constants, the window and the matcher's answers\<close>

lemma wait_tameike_sanno: "dict_get TRANSFER_MINUTES tameike_sanno = Inr 5"
  by (simp add: dict_get_def TRANSFER_MINUTES_def)

lemma wait_shimbashi: "dict_get TRANSFER_MINUTES shimbashi = Inr 7"
  by (simp add: dict_get_def TRANSFER_MINUTES_def tameike_sanno_def shimbashi_def)

lemma effective_max_offset_range: "0 \<le> effective_max_offset arg \<and> effective_max_offset arg \<le> 60"
  by (simp add: effective_max_offset_def Let_def split: option.splits)

lemma minute_of_day_range:
  "valid_datetime d \<Longrightarrow> 0 \<le> minute_of_day d \<and> minute_of_day d < 1440"
  by (auto simp add: valid_datetime_def minute_of_day_def)

lemma minute_of_day_add_minutes:
  "minute_of_day (add_minutes d k) = (minute_of_day d + k) mod 1440"
proof -
  let ?total = "hour d * 60 + minute d + k"
  have "(?total mod 1440) mod 60 = ?total mod 60"
    by (rule mod_mod_cancel) simp
  then have "(?total mod 1440) div 60 * 60 + ?total mod 60 = ?total mod 1440"
    using div_mult_mod_eq [of "?total mod 1440" 60] by simp
  then show ?thesis
    by (simp add: minute_of_day_def add_minutes_def Let_def)
qed

lemma find_next_loop_found:
  "find_next_loop ts e cand = Inr (Some (t, d)) \<Longrightarrow>
   cand = Some (t, d) \<or> (t \<in> set ts \<and> parse_hhmm_to_minutes (departure t) = Inr d \<and> e \<le> d)"
proof (induction ts arbitrary: cand)
  case Nil
  then show ?case by simp
next
  case (Cons t0 ts)
  then show ?case
    by (fastforce split: sum.splits if_splits option.splits prod.splits)
qed

lemma find_next_train_found:
  assumes "find_next_train trs e = Inr (Some t)"
  shows "t \<in> set trs \<and> (\<exists>d. parse_hhmm_to_minutes (departure t) = Inr d \<and> e \<le> d)"
proof -
  from assms obtain d where "find_next_loop trs e None = Inr (Some (t, d))"
    by (auto simp add: find_next_train_def split: sum.splits)
  from find_next_loop_found [OF this] show ?thesis by auto
qed

lemma parse_minutes_to_hhmm:
  assumes "0 \<le> d" "d < 6000"
  shows "parse_hhmm_to_minutes (minutes_to_hhmm d) = Inr d"
proof -
  let ?h = "nat (d div 60)" and ?m = "nat (d mod 60)"
  have "0 \<le> d div 60" using assms by simp
  then have d: "d = int ?h * 60 + int ?m" by simp
  have h: "?h < 100" using assms by linarith
  have m: "?m < 60" by simp
  have lt: "?h div 10 < 10" "?h mod 10 < 10" "?m div 10 < 10" "?m mod 10 < 10"
    using h m by auto
  have "minutes_to_hhmm (int ?h * 60 + int ?m) =
        [digit_char (?h div 10), digit_char (?h mod 10), CHR '':'',
         digit_char (?m div 10), digit_char (?m mod 10)]"
    using h m by (rule minutes_to_hhmm_in_day)
  moreover have "parse_hhmm_to_minutes
        [digit_char (?h div 10), digit_char (?h mod 10), CHR '':'',
         digit_char (?m div 10), digit_char (?m mod 10)] =
        Inr (int (?h div 10 * 10 + ?h mod 10) * 60 + int (?m div 10 * 10 + ?m mod 10))"
    using parse_two_by_two [of "digit_char (?h div 10)" "digit_char (?h mod 10)"
        "digit_char (?m div 10)" "digit_char (?m mod 10)"] lt
    by (simp add: is_digit_digit_char digit_val_digit_char)
  ultimately have "parse_hhmm_to_minutes (minutes_to_hhmm (int ?h * 60 + int ?m)) =
        Inr (int ?h * 60 + int ?m)"
    by simp
  with d show ?thesis by simp
qed

section \<open>The route search: one candidate and the loop\<close>

lemma candidate_route_Some:
  assumes "candidate_route tt b l t1 = Inr (Some r)"
  shows "\<exists>dep1 arr1 t2 arr2 t3 arr3.
           parse_hhmm_to_minutes (departure t1) = Inr dep1 \<and> b \<le> dep1 \<and> dep1 \<le> l \<and>
           parse_hhmm_to_minutes (arrival t1) = Inr arr1 \<and>
           find_next_train (trains (tameike_shimbashi tt)) (arr1 + 5) = Inr (Some t2) \<and>
           parse_hhmm_to_minutes (arrival t2) = Inr arr2 \<and>
           find_next_train (trains (shimbashi_kamakura tt)) (arr2 + 7) = Inr (Some t3) \<and>
           parse_hhmm_to_minutes (arrival t3) = Inr arr3 \<and>
           departure_time r = minutes_to_hhmm dep1 \<and>
           arrival_time r = minutes_to_hhmm arr3 \<and>
           total_duration r = str_int (arr3 - dep1) @ minutes_suffix \<and>
           fare r = fare_str \<and>
           leg_trains_of r = [t1, t2, t3] \<and>
           length (transfers r) = 3"
  using assms
  unfolding candidate_route_def and_then_def Let_def wait_tameike_sanno wait_shimbashi
  by (auto simp add: leg_trains_of_def split: sum.splits option.splits if_splits)

lemma candidate_route_outside:
  assumes "parse_hhmm_to_minutes (departure t1) = Inr d" "d < b \<or> l < d"
  shows "candidate_route tt b l t1 = Inr None"
  using assms by (auto simp add: candidate_route_def and_then_def Let_def)

lemma candidate_route_no_second:
  assumes "parse_hhmm_to_minutes (departure t1) = Inr dep1"
    "parse_hhmm_to_minutes (arrival t1) = Inr arr1"
    "find_next_train (trains (tameike_shimbashi tt)) (arr1 + 5) = Inr None"
  shows "candidate_route tt b l t1 = Inr None"
  using assms
  by (simp add: candidate_route_def and_then_def Let_def wait_tameike_sanno)

lemma candidate_route_no_third:
  assumes "parse_hhmm_to_minutes (departure t1) = Inr dep1"
    "parse_hhmm_to_minutes (arrival t1) = Inr arr1"
    "find_next_train (trains (tameike_shimbashi tt)) (arr1 + 5) = Inr (Some t2)"
    "parse_hhmm_to_minutes (arrival t2) = Inr arr2"
    "find_next_train (trains (shimbashi_kamakura tt)) (arr2 + 7) = Inr None"
  shows "candidate_route tt b l t1 = Inr None"
proof -
  from find_next_train_found [OF assms(3)] obtain dep2
    where "parse_hhmm_to_minutes (departure t2) = Inr dep2" by blast
  with assms show ?thesis
    by (simp add: candidate_route_def and_then_def Let_def wait_tameike_sanno wait_shimbashi)
qed

lemma routes_loop_skip:
  "candidate_route tt b l t1 = Inr None \<Longrightarrow>
   routes_loop tt b l (t1 # ts) acc = routes_loop tt b l ts acc"
  by (simp add: and_then_def)

lemma routes_loop_all:
  "\<forall>t \<in> set ts. \<exists>p. candidate_route tt b l t = Inr p \<Longrightarrow>
   routes_loop tt b l ts acc = Inr (acc @ concat (map (routes_from tt b l) ts))"
proof (induction ts arbitrary: acc)
  case Nil
  then show ?case by simp
next
  case (Cons t ts)
  then obtain p where p: "candidate_route tt b l t = Inr p" by auto
  from Cons have IH: "\<And>acc. routes_loop tt b l ts acc =
      Inr (acc @ concat (map (routes_from tt b l) ts))" by simp
  have hd: "routes_from tt b l t = (case p of None \<Rightarrow> [] | Some r \<Rightarrow> [r])"
    by (simp add: routes_from_def p)
  show ?case
    by (cases p) (simp_all add: p IH and_then_def hd)
qed

lemma routes_loop_no_error:
  "routes_loop tt b l ts acc = Inr rs \<Longrightarrow> \<forall>t \<in> set ts. \<exists>p. candidate_route tt b l t = Inr p"
proof (induction ts arbitrary: acc)
  case Nil
  then show ?case by simp
next
  case (Cons t ts)
  then show ?case
    by (auto simp add: and_then_def split: sum.splits option.splits)
qed

lemma routes_loop_result:
  assumes "routes_loop tt b l ts acc = Inr rs"
  shows "rs = acc @ concat (map (routes_from tt b l) ts)"
  using routes_loop_all [OF routes_loop_no_error [OF assms], of acc] assms by simp

lemma routes_from_member:
  "r \<in> set (routes_from tt b l t) \<longleftrightarrow> candidate_route tt b l t = Inr (Some r)"
  by (auto simp add: routes_from_def split: sum.splits option.splits)

lemma api_routes_result:
  assumes "api_routes tt now arg = Inr resp"
  shows "max_offset_minutes resp = effective_max_offset arg"
    "search_time_jst resp = now" "departure_base_jst resp = now"
    "routes resp = sort_key departure_time
       (concat (map (routes_from tt (minute_of_day now)
                       (minute_of_day (add_minutes now (effective_max_offset arg))))
                    (trains (ichigaya_tameike tt))))"
proof -
  let ?b = "minute_of_day now"
  let ?l = "minute_of_day (add_minutes now (effective_max_offset arg))"
  from assms obtain rs where
    rs: "routes_loop tt ?b ?l (trains (ichigaya_tameike tt)) [] = Inr rs"
    and resp: "resp = \<lparr>search_time_jst = now, departure_base_jst = now,
                       max_offset_minutes = effective_max_offset arg,
                       routes = sort_key departure_time rs\<rparr>"
    by (auto simp add: api_routes_def Let_def split: sum.splits)
  from routes_loop_result [OF rs] resp
  show "max_offset_minutes resp = effective_max_offset arg"
    "search_time_jst resp = now" "departure_base_jst resp = now"
    "routes resp = sort_key departure_time
       (concat (map (routes_from tt ?b ?l) (trains (ichigaya_tameike tt))))"
    by simp_all
qed

lemma api_routes_member:
  assumes "api_routes tt now arg = Inr resp" "r \<in> set (routes resp)"
  shows "\<exists>t1 \<in> set (trains (ichigaya_tameike tt)).
           candidate_route tt (minute_of_day now)
             (minute_of_day (add_minutes now (effective_max_offset arg))) t1 = Inr (Some r)"
  using assms(2) unfolding api_routes_result(4) [OF assms(1)]
  by (auto simp add: routes_from_member)

lemma window_latest:
  assumes "valid_datetime now"
  shows "minute_of_day (add_minutes now (effective_max_offset arg)) \<le>
           minute_of_day now + effective_max_offset arg"
    "minute_of_day (add_minutes now (effective_max_offset arg)) < 1440"
    "0 \<le> minute_of_day (add_minutes now (effective_max_offset arg))"
proof -
  have "0 \<le> minute_of_day now + effective_max_offset arg"
    using minute_of_day_range [OF assms] effective_max_offset_range [of arg] by simp
  then show "minute_of_day (add_minutes now (effective_max_offset arg)) \<le>
           minute_of_day now + effective_max_offset arg"
    unfolding minute_of_day_add_minutes by (rule zmod_le_nonneg_dividend)
  show "minute_of_day (add_minutes now (effective_max_offset arg)) < 1440"
    "0 \<le> minute_of_day (add_minutes now (effective_max_offset arg))"
    unfolding minute_of_day_add_minutes by simp_all
qed

section \<open>The search on the small timetable\<close>

lemma scenario_response:
  "api_routes scenario_timetable scenario_now None =
     Inr \<lparr>search_time_jst = scenario_now, departure_base_jst = scenario_now,
          max_offset_minutes = 30, routes = [scenario_route]\<rparr>"
  by code_simp

lemma scenario_response_30:
  "api_routes scenario_timetable scenario_now (Some ''30'') =
     Inr \<lparr>search_time_jst = scenario_now, departure_base_jst = scenario_now,
          max_offset_minutes = 30, routes = [scenario_route]\<rparr>"
  by code_simp

lemma unsorted_response:
  "api_routes unsorted_timetable scenario_now None =
     Inr \<lparr>search_time_jst = scenario_now, departure_base_jst = scenario_now,
          max_offset_minutes = 30, routes = [scenario_route, later_route]\<rparr>"
  by code_simp

lemma scenario_valid: "valid_datetime scenario_now"
  by (simp add: valid_datetime_def scenario_now_def)

section \<open>The route search: the departure window\<close>

text \<open>
  C2. For every clock reading \<open>now\<close> and every query parameter, each itinerary of the
  response has a first-leg train of the timetable whose departure minute \<open>d\<close> satisfies
  \<open>base \<le> d \<le> base + max_offset\<close>, where \<open>base\<close> is the minute of the day of \<open>now\<close> and
  \<open>max_offset\<close> the effective offset; \<open>departure_time\<close> is the clock text of \<open>d\<close>. A first-leg
  train whose departure lies outside this closed window makes the loop body add nothing,
  and no itinerary of the response starts with it.
\<close>

theorem leg1_departure_in_window:
  assumes "valid_datetime now" and "api_routes tt now arg = Inr resp"
  shows "(\<forall>r \<in> set (routes resp). \<exists>t1 t2 t3 d.
            leg_trains_of r = [t1, t2, t3] \<and> t1 \<in> set (trains (ichigaya_tameike tt)) \<and>
            parse_hhmm_to_minutes (departure t1) = Inr d \<and>
            parse_hhmm_to_minutes (departure_time r) = Inr d \<and>
            minute_of_day now \<le> d \<and> d \<le> minute_of_day now + effective_max_offset arg) \<and>
         (\<forall>t1 d. parse_hhmm_to_minutes (departure t1) = Inr d \<and>
                 (d < minute_of_day now \<or> minute_of_day now + effective_max_offset arg < d) \<longrightarrow>
            candidate_route tt (minute_of_day now)
              (minute_of_day (add_minutes now (effective_max_offset arg))) t1 = Inr None \<and>
            (\<forall>r \<in> set (routes resp). take 1 (leg_trains_of r) \<noteq> [t1]))"
proof -
  let ?b = "minute_of_day now"
  let ?off = "effective_max_offset arg"
  let ?l = "minute_of_day (add_minutes now ?off)"
  note w = window_latest [OF assms(1), of arg]
  have b0: "0 \<le> ?b" using minute_of_day_range [OF assms(1)] by simp
  have inside: "\<exists>t1 t2 t3 d.
            leg_trains_of r = [t1, t2, t3] \<and> t1 \<in> set (trains (ichigaya_tameike tt)) \<and>
            parse_hhmm_to_minutes (departure t1) = Inr d \<and>
            parse_hhmm_to_minutes (departure_time r) = Inr d \<and>
            ?b \<le> d \<and> d \<le> ?b + ?off"
    if r: "r \<in> set (routes resp)" for r
  proof -
    from api_routes_member [OF assms(2) r] obtain t1
      where t1: "t1 \<in> set (trains (ichigaya_tameike tt))"
        and c: "candidate_route tt ?b ?l t1 = Inr (Some r)" by blast
    from candidate_route_Some [OF c] obtain d t2 t3
      where d: "parse_hhmm_to_minutes (departure t1) = Inr d" "?b \<le> d" "d \<le> ?l"
        and dt: "departure_time r = minutes_to_hhmm d"
        and lt: "leg_trains_of r = [t1, t2, t3]" by blast
    have "0 \<le> d" "d < 6000" using d(2,3) b0 w(2) by simp_all
    then have "parse_hhmm_to_minutes (departure_time r) = Inr d"
      unfolding dt by (rule parse_minutes_to_hhmm)
    moreover have "d \<le> ?b + ?off" using d(3) w(1) by simp
    ultimately show ?thesis using t1 d lt by blast
  qed
  have outside: "candidate_route tt ?b ?l t1 = Inr None \<and>
            (\<forall>r \<in> set (routes resp). take 1 (leg_trains_of r) \<noteq> [t1])"
    if p: "parse_hhmm_to_minutes (departure t1) = Inr d"
      and o: "d < ?b \<or> ?b + ?off < d" for t1 d
  proof
    from o w(1) have "d < ?b \<or> ?l < d" by linarith
    with p show "candidate_route tt ?b ?l t1 = Inr None"
      by (rule candidate_route_outside)
    show "\<forall>r \<in> set (routes resp). take 1 (leg_trains_of r) \<noteq> [t1]"
    proof
      fix r assume "r \<in> set (routes resp)"
      from inside [OF this] obtain u1 u2 u3 e
        where u: "leg_trains_of r = [u1, u2, u3]"
          "parse_hhmm_to_minutes (departure u1) = Inr e" "?b \<le> e" "e \<le> ?b + ?off"
        by blast
      show "take 1 (leg_trains_of r) \<noteq> [t1]"
      proof
        assume "take 1 (leg_trains_of r) = [t1]"
        with u(1) have "u1 = t1" by simp
        with u(2) p have "e = d" by simp
        with u(3,4) o show False by simp
      qed
    qed
  qed
  from inside outside show ?thesis by blast
qed


theorem leg1_departure_in_window_witness:
  "valid_datetime scenario_now \<and>
   api_routes scenario_timetable scenario_now None =
     Inr \<lparr>search_time_jst = scenario_now, departure_base_jst = scenario_now,
          max_offset_minutes = 30, routes = [scenario_route]\<rparr> \<and>
   (\<exists>d. parse_hhmm_to_minutes (departure_time scenario_route) = Inr d \<and>
        minute_of_day scenario_now \<le> d \<and>
        d \<le> minute_of_day scenario_now + effective_max_offset None)"
proof -
  have "\<exists>d. parse_hhmm_to_minutes (departure_time scenario_route) = Inr d \<and>
        minute_of_day scenario_now \<le> d \<and>
        d \<le> minute_of_day scenario_now + effective_max_offset None"
    using leg1_departure_in_window [OF scenario_valid scenario_response] by fastforce
  then show ?thesis using scenario_valid scenario_response by blast
qed

section \<open>The route search: transfer buffers\<close>

text \<open>
  C3. The buffers are 5 minutes at Tameike-sanno and 7 minutes at Shimbashi. In every
  itinerary of the response the second-leg train is a train of the second leg departing at
  or after the first train's arrival plus 5, and the third-leg train is a train of the
  third leg departing at or after the second train's arrival plus 7; every itinerary has
  exactly three transfer records. When the matcher finds no train on the second leg, or
  none on the third, the loop body yields nothing for that first-leg train, and the loop
  then goes on with \<open>routes\<close> unchanged.
\<close>

theorem transfer_buffers_respected:
  assumes "api_routes tt now arg = Inr resp"
  shows "dict_get TRANSFER_MINUTES tameike_sanno = Inr 5 \<and>
         dict_get TRANSFER_MINUTES shimbashi = Inr 7 \<and>
         (\<forall>r \<in> set (routes resp). \<exists>t1 t2 t3 arr1 dep2 arr2 dep3.
            leg_trains_of r = [t1, t2, t3] \<and> length (transfers r) = 3 \<and>
            t2 \<in> set (trains (tameike_shimbashi tt)) \<and>
            t3 \<in> set (trains (shimbashi_kamakura tt)) \<and>
            parse_hhmm_to_minutes (arrival t1) = Inr arr1 \<and>
            parse_hhmm_to_minutes (departure t2) = Inr dep2 \<and> arr1 + 5 \<le> dep2 \<and>
            parse_hhmm_to_minutes (arrival t2) = Inr arr2 \<and>
            parse_hhmm_to_minutes (departure t3) = Inr dep3 \<and> arr2 + 7 \<le> dep3) \<and>
         (\<forall>b l t1 dep1 arr1.
            parse_hhmm_to_minutes (departure t1) = Inr dep1 \<and>
            parse_hhmm_to_minutes (arrival t1) = Inr arr1 \<and>
            find_next_train (trains (tameike_shimbashi tt)) (arr1 + 5) = Inr None \<longrightarrow>
            candidate_route tt b l t1 = Inr None) \<and>
         (\<forall>b l t1 dep1 arr1 t2 arr2.
            parse_hhmm_to_minutes (departure t1) = Inr dep1 \<and>
            parse_hhmm_to_minutes (arrival t1) = Inr arr1 \<and>
            find_next_train (trains (tameike_shimbashi tt)) (arr1 + 5) = Inr (Some t2) \<and>
            parse_hhmm_to_minutes (arrival t2) = Inr arr2 \<and>
            find_next_train (trains (shimbashi_kamakura tt)) (arr2 + 7) = Inr None \<longrightarrow>
            candidate_route tt b l t1 = Inr None) \<and>
         (\<forall>b l t1 ts acc.
            candidate_route tt b l t1 = Inr None \<longrightarrow>
            routes_loop tt b l (t1 # ts) acc = routes_loop tt b l ts acc)"
proof -
  let ?b = "minute_of_day now"
  let ?l = "minute_of_day (add_minutes now (effective_max_offset arg))"
  have chain: "\<exists>t1 t2 t3 arr1 dep2 arr2 dep3.
            leg_trains_of r = [t1, t2, t3] \<and> length (transfers r) = 3 \<and>
            t2 \<in> set (trains (tameike_shimbashi tt)) \<and>
            t3 \<in> set (trains (shimbashi_kamakura tt)) \<and>
            parse_hhmm_to_minutes (arrival t1) = Inr arr1 \<and>
            parse_hhmm_to_minutes (departure t2) = Inr dep2 \<and> arr1 + 5 \<le> dep2 \<and>
            parse_hhmm_to_minutes (arrival t2) = Inr arr2 \<and>
            parse_hhmm_to_minutes (departure t3) = Inr dep3 \<and> arr2 + 7 \<le> dep3"
    if r: "r \<in> set (routes resp)" for r
  proof -
    from api_routes_member [OF assms r] obtain t1
      where c: "candidate_route tt ?b ?l t1 = Inr (Some r)" by blast
    from candidate_route_Some [OF c] obtain arr1 t2 arr2 t3
      where a1: "parse_hhmm_to_minutes (arrival t1) = Inr arr1"
        and f2: "find_next_train (trains (tameike_shimbashi tt)) (arr1 + 5) = Inr (Some t2)"
        and a2: "parse_hhmm_to_minutes (arrival t2) = Inr arr2"
        and f3: "find_next_train (trains (shimbashi_kamakura tt)) (arr2 + 7) = Inr (Some t3)"
        and lt: "leg_trains_of r = [t1, t2, t3]" "length (transfers r) = 3"
      by blast
    from find_next_train_found [OF f2] obtain dep2
      where d2: "t2 \<in> set (trains (tameike_shimbashi tt))"
        "parse_hhmm_to_minutes (departure t2) = Inr dep2" "arr1 + 5 \<le> dep2" by blast
    from find_next_train_found [OF f3] obtain dep3
      where d3: "t3 \<in> set (trains (shimbashi_kamakura tt))"
        "parse_hhmm_to_minutes (departure t3) = Inr dep3" "arr2 + 7 \<le> dep3" by blast
    from lt a1 a2 d2 d3 show ?thesis by blast
  qed
  have second: "candidate_route tt b l t1 = Inr None"
    if "parse_hhmm_to_minutes (departure t1) = Inr dep1 \<and>
        parse_hhmm_to_minutes (arrival t1) = Inr arr1 \<and>
        find_next_train (trains (tameike_shimbashi tt)) (arr1 + 5) = Inr None"
    for b l t1 dep1 arr1
    using that candidate_route_no_second by blast
  have third: "candidate_route tt b l t1 = Inr None"
    if "parse_hhmm_to_minutes (departure t1) = Inr dep1 \<and>
        parse_hhmm_to_minutes (arrival t1) = Inr arr1 \<and>
        find_next_train (trains (tameike_shimbashi tt)) (arr1 + 5) = Inr (Some t2) \<and>
        parse_hhmm_to_minutes (arrival t2) = Inr arr2 \<and>
        find_next_train (trains (shimbashi_kamakura tt)) (arr2 + 7) = Inr None"
    for b l t1 dep1 arr1 t2 arr2
    using that candidate_route_no_third by blast
  have skip: "routes_loop tt b l (t1 # ts) acc = routes_loop tt b l ts acc"
    if "candidate_route tt b l t1 = Inr None" for b l t1 ts acc
    using that by (rule routes_loop_skip)
  from chain second third skip wait_tameike_sanno wait_shimbashi show ?thesis
    by (intro conjI ballI allI impI) blast+
qed

theorem transfer_buffers_respected_witness:
  "api_routes scenario_timetable scenario_now None =
     Inr \<lparr>search_time_jst = scenario_now, departure_base_jst = scenario_now,
          max_offset_minutes = 30, routes = [scenario_route]\<rparr> \<and>
   dict_get TRANSFER_MINUTES tameike_sanno = Inr 5 \<and>
   dict_get TRANSFER_MINUTES shimbashi = Inr 7 \<and>
   length (transfers scenario_route) = 3 \<and>
   parse_hhmm_to_minutes ''07:12'' = Inr 432 \<and>
   parse_hhmm_to_minutes ''07:17'' = Inr 437 \<and>
   parse_hhmm_to_minutes ''07:30'' = Inr 450 \<and>
   parse_hhmm_to_minutes ''07:37'' = Inr 457"
proof -
  have "length (transfers scenario_route) = 3"
    using transfer_buffers_respected [OF scenario_response] by fastforce
  moreover have "parse_hhmm_to_minutes ''07:12'' = Inr 432" by code_simp
  moreover have "parse_hhmm_to_minutes ''07:17'' = Inr 437" by code_simp
  moreover have "parse_hhmm_to_minutes ''07:30'' = Inr 450" by code_simp
  moreover have "parse_hhmm_to_minutes ''07:37'' = Inr 457" by code_simp
  ultimately show ?thesis
    using scenario_response wait_tameike_sanno wait_shimbashi by blast
qed

section \<open>The query parameter\<close>

lemma py_int_minus_5: "py_int ''-5'' = Some (- 5)"
  by code_simp

lemma py_int_200: "py_int ''200'' = Some 200"
  by code_simp

lemma py_int_3: "py_int ''3'' = Some 3"
  by code_simp

lemma py_int_abc: "py_int ''abc'' = None"
  by code_simp

lemma api_routes_offset_only:
  "effective_max_offset arg = effective_max_offset arg' \<Longrightarrow>
   api_routes tt now arg = api_routes tt now arg'"
  by (simp add: api_routes_def)


lemma ascii_space: "is_space c \<Longrightarrow> (of_char c :: nat) < 128"
  by (auto simp add: is_space_def)

lemma ascii_digit: "is_digit c \<Longrightarrow> (of_char c :: nat) < 128"
  by (simp add: is_digit_def)

lemma scan_digits_chars:
  "scan_digits acc ds = Some k \<Longrightarrow> \<forall>c \<in> set ds. is_digit c \<or> c = CHR ''_''"
proof (induction acc ds arbitrary: k rule: scan_digits.induct)
  case (1 acc)
  then show ?case by simp
next
  case (2 acc c)
  then show ?case by (simp split: if_splits)
next
  case (3 acc c d ds)
  then show ?case by (auto split: if_splits)
qed

lemma decimal_literal_chars:
  assumes "decimal_literal s = Some k"
  shows "\<forall>c \<in> set s. (of_char c :: nat) < 128"
proof (cases s)
  case Nil
  with assms show ?thesis by (simp add: decimal_literal_def)
next
  case (Cons c cs)
  with assms have c: "is_digit c" and sc: "scan_digits (digit_val c) cs = Some k"
    by (simp_all add: decimal_literal_def split: if_splits)
  from scan_digits_chars [OF sc] have "\<forall>x \<in> set cs. (of_char x :: nat) < 128"
    by (auto simp add: ascii_digit)
  with c Cons show ?thesis by (simp add: ascii_digit)
qed

lemma strip_ascii:
  assumes "\<forall>c \<in> set (strip s). (of_char c :: nat) < 128"
  shows "\<forall>c \<in> set s. (of_char c :: nat) < 128"
proof
  fix c assume c: "c \<in> set s"
  let ?m = "dropWhile is_space s"
  have s: "s = takeWhile is_space s @ ?m" by simp
  have m: "rev ?m = takeWhile is_space (rev ?m) @ dropWhile is_space (rev ?m)" by simp
  have "set s = set (takeWhile is_space s) \<union> set ?m"
    by (metis s set_append)
  moreover have "set ?m = set (takeWhile is_space (rev ?m)) \<union> set (dropWhile is_space (rev ?m))"
    by (metis m set_append set_rev)
  moreover have "set (strip s) = set (dropWhile is_space (rev ?m))"
    by (simp add: strip_def)
  ultimately consider "c \<in> set (takeWhile is_space s)"
    | "c \<in> set (takeWhile is_space (rev ?m))" | "c \<in> set (strip s)"
    using c by blast
  then show "(of_char c :: nat) < 128"
  proof cases
    case 1
    then have "is_space c" by (rule set_takeWhileD [THEN conjunct2])
    then show ?thesis by (rule ascii_space)
  next
    case 2
    then have "is_space c" by (rule set_takeWhileD [THEN conjunct2])
    then show ?thesis by (rule ascii_space)
  next
    case 3
    with assms show ?thesis by blast
  qed
qed

lemma py_int_accepts_ascii:
  assumes "py_int s = Some n"
  shows "is_ascii s"
proof -
  from assms obtain c cs where st: "strip s = c # cs"
    by (cases "strip s") (simp_all add: py_int_def)
  let ?body = "if c = CHR ''-'' \<or> c = CHR ''+'' then cs else c # cs"
  from assms st obtain k where k: "decimal_literal ?body = Some k"
    by (auto simp add: py_int_def Let_def split: if_splits option.splits)
  from decimal_literal_chars [OF k] have b: "\<forall>x \<in> set ?body. (of_char x :: nat) < 128" .
  have "\<forall>x \<in> set (c # cs). (of_char x :: nat) < 128"
  proof (cases "c = CHR ''-'' \<or> c = CHR ''+''")
    case True
    with b show ?thesis by auto
  next
    case False
    with b show ?thesis by simp
  qed
  with st have "\<forall>x \<in> set (strip s). (of_char x :: nat) < 128" by simp
  then have "\<forall>x \<in> set s. (of_char x :: nat) < 128" by (rule strip_ascii)
  then show ?thesis by (simp add: is_ascii_def list_all_iff)
qed

lemma is_ascii_abc: "is_ascii ''abc''"
  by (simp add: is_ascii_def)

text \<open>
  C8. The effective \<open>max_offset\<close> is 30 when the parameter is absent, 3 when \<open>int\<close> rejects
  its text, and otherwise the integer read, clamped into \<open>[0, 60]\<close> (so \<open>-5\<close> gives 0 and
  \<open>200\<close> gives 60). The response echoes the effective value, and a request whose parameter
  is rejected is answered exactly as the request with parameter \<open>3\<close>. A rejection is read
  off \<open>py_int\<close> for ASCII parameter text, where \<open>py_int\<close> is \<open>int\<close>; an accepted text is
  always ASCII.
\<close>

theorem max_offset_effective:
  "effective_max_offset None = 30 \<and>
   (\<forall>s. is_ascii s \<and> py_int s = None \<longrightarrow> effective_max_offset (Some s) = 3) \<and>
   (\<forall>s n. py_int s = Some n \<longrightarrow>
      is_ascii s \<and>
      effective_max_offset (Some s) = (if n < 0 then 0 else if n > 60 then 60 else n) \<and>
      0 \<le> effective_max_offset (Some s) \<and> effective_max_offset (Some s) \<le> 60) \<and>
   effective_max_offset (Some ''-5'') = 0 \<and>
   effective_max_offset (Some ''200'') = 60 \<and>
   (\<forall>tt now arg resp. api_routes tt now arg = Inr resp \<longrightarrow>
      max_offset_minutes resp = effective_max_offset arg) \<and>
   (\<forall>tt now s. is_ascii s \<and> py_int s = None \<longrightarrow>
      api_routes tt now (Some s) = api_routes tt now (Some ''3''))"
proof -
  have a: "effective_max_offset None = 30"
    by (simp add: effective_max_offset_def)
  have b: "effective_max_offset (Some s) = 3" if "is_ascii s \<and> py_int s = None" for s
    using that by (simp add: effective_max_offset_def)
  have c: "is_ascii s \<and>
      effective_max_offset (Some s) = (if n < 0 then 0 else if n > 60 then 60 else n) \<and>
      0 \<le> effective_max_offset (Some s) \<and> effective_max_offset (Some s) \<le> 60"
    if "py_int s = Some n" for s n
    using that py_int_accepts_ascii [OF that] by (simp add: effective_max_offset_def)
  have d: "effective_max_offset (Some ''-5'') = 0"
    by (simp add: effective_max_offset_def py_int_minus_5)
  have e: "effective_max_offset (Some ''200'') = 60"
    by (simp add: effective_max_offset_def py_int_200)
  have f: "max_offset_minutes resp = effective_max_offset arg"
    if "api_routes tt now arg = Inr resp" for tt now arg resp
    using that by (rule api_routes_result(1))
  have g: "api_routes tt now (Some s) = api_routes tt now (Some ''3'')"
    if "is_ascii s \<and> py_int s = None" for tt now s
  proof (rule api_routes_offset_only)
    show "effective_max_offset (Some s) = effective_max_offset (Some ''3'')"
      using that by (simp add: effective_max_offset_def py_int_3)
  qed
  from a b c d e f g show ?thesis by blast
qed

theorem max_offset_effective_witness:
  "is_ascii ''abc'' \<and> py_int ''abc'' = None \<and> effective_max_offset (Some ''abc'') = 3 \<and>
   py_int ''200'' = Some 200 \<and> effective_max_offset (Some ''200'') = 60 \<and>
   api_routes scenario_timetable scenario_now None =
     Inr \<lparr>search_time_jst = scenario_now, departure_base_jst = scenario_now,
          max_offset_minutes = 30, routes = [scenario_route]\<rparr> \<and>
   effective_max_offset None = 30"
  using max_offset_effective is_ascii_abc py_int_abc py_int_200 scenario_response by blast

section \<open>The search on the small timetable: the result\<close>

text \<open>
  C6. With first leg \<open>[{07:00, 07:12}]\<close>, second leg \<open>[{07:17, 07:30}, {07:40, 07:55}]\<close>,
  third leg \<open>[{07:37, 08:05}, {08:10, 08:40}]\<close>, buffers 5 and 7 and the window from 07:00 to
  07:30 (the clock at 07:00, the offset 30 by default or as given), the response holds
  exactly one itinerary: departure 07:00, the trains \<open>{07:00, 07:12}\<close>, \<open>{07:17, 07:30}\<close> and
  \<open>{07:37, 08:05}\<close>, arrival 08:05 and the duration text \<open>65\<close> followed by the minutes
  character.
\<close>

theorem scenario_one_itinerary:
  "api_routes scenario_timetable scenario_now None =
     Inr \<lparr>search_time_jst = scenario_now, departure_base_jst = scenario_now,
          max_offset_minutes = 30, routes = [scenario_route]\<rparr> \<and>
   api_routes scenario_timetable scenario_now (Some ''30'') =
     Inr \<lparr>search_time_jst = scenario_now, departure_base_jst = scenario_now,
          max_offset_minutes = 30, routes = [scenario_route]\<rparr> \<and>
   minutes_to_hhmm (minute_of_day scenario_now) = ''07:00'' \<and>
   minutes_to_hhmm (minute_of_day (add_minutes scenario_now 30)) = ''07:30'' \<and>
   departure_time scenario_route = ''07:00'' \<and>
   arrival_time scenario_route = ''08:05'' \<and>
   total_duration scenario_route = ''65'' @ minutes_suffix \<and>
   leg_trains_of scenario_route =
     [\<lparr>departure = ''07:00'', arrival = ''07:12''\<rparr>,
      \<lparr>departure = ''07:17'', arrival = ''07:30''\<rparr>,
      \<lparr>departure = ''07:37'', arrival = ''08:05''\<rparr>]"
proof -
  have "minutes_to_hhmm (minute_of_day scenario_now) = ''07:00''" by code_simp
  moreover have "minutes_to_hhmm (minute_of_day (add_minutes scenario_now 30)) = ''07:30''"
    by code_simp
  moreover have "leg_trains_of scenario_route =
     [\<lparr>departure = ''07:00'', arrival = ''07:12''\<rparr>,
      \<lparr>departure = ''07:17'', arrival = ''07:30''\<rparr>,
      \<lparr>departure = ''07:37'', arrival = ''08:05''\<rparr>]"
    by (simp add: leg_trains_of_def scenario_route_def)
  ultimately show ?thesis
    using scenario_response scenario_response_30 by (simp add: scenario_route_def)
qed


section \<open>The route search: a window that crosses midnight\<close>

text \<open>
  C10. When the minute of the day of \<open>now\<close> plus the effective offset reaches 1440, the
  upper bound of the window, taken from the hour and minute of \<open>now + max_offset\<close>, is that
  sum modulo 1440 and lies strictly below the lower bound; no departure minute lies in the
  window; so every response has an empty list of itineraries, and there is a response as
  soon as the departure texts of the first leg parse.
\<close>

theorem midnight_window_empty:
  assumes "valid_datetime now"
    and "1440 \<le> minute_of_day now + effective_max_offset arg"
  shows "minute_of_day (add_minutes now (effective_max_offset arg)) =
           (minute_of_day now + effective_max_offset arg) mod 1440 \<and>
         minute_of_day (add_minutes now (effective_max_offset arg)) < minute_of_day now \<and>
         (\<forall>d. \<not> (minute_of_day now \<le> d \<and>
                  d \<le> minute_of_day (add_minutes now (effective_max_offset arg)))) \<and>
         (\<forall>resp. api_routes tt now arg = Inr resp \<longrightarrow> routes resp = []) \<and>
         ((\<forall>t \<in> set (trains (ichigaya_tameike tt)).
             \<exists>d. parse_hhmm_to_minutes (departure t) = Inr d) \<longrightarrow>
          api_routes tt now arg =
            Inr \<lparr>search_time_jst = now, departure_base_jst = now,
                 max_offset_minutes = effective_max_offset arg, routes = []\<rparr>)"
proof -
  let ?b = "minute_of_day now"
  let ?off = "effective_max_offset arg"
  let ?l = "minute_of_day (add_minutes now ?off)"
  have b: "0 \<le> ?b" "?b < 1440" using minute_of_day_range [OF assms(1)] by simp_all
  have off: "0 \<le> ?off" "?off \<le> 60" using effective_max_offset_range [of arg] by simp_all
  have wrap: "?l = (?b + ?off) mod 1440" by (rule minute_of_day_add_minutes)
  have "(?b + ?off) mod 1440 = ?b + ?off - 1440"
    using assms(2) b off by (intro int_mod_pos_eq [where q = 1]) simp_all
  with wrap have l: "?l = ?b + ?off - 1440" by simp
  with off have less: "?l < ?b" by simp
  have none: "candidate_route tt ?b ?l t = Inr None"
    if "parse_hhmm_to_minutes (departure t) = Inr d" for t d
    using that less by (intro candidate_route_outside [where d = d]) auto
  have empty: "routes resp = []" if r: "api_routes tt now arg = Inr resp" for resp
  proof (rule ccontr)
    assume "routes resp \<noteq> []"
    then obtain r where "r \<in> set (routes resp)" by (cases "routes resp") auto
    from api_routes_member [OF that this] obtain t1
      where "candidate_route tt ?b ?l t1 = Inr (Some r)" by blast
    from candidate_route_Some [OF this] obtain d where "?b \<le> d" "d \<le> ?l" by blast
    with less show False by simp
  qed
  have answer: "api_routes tt now arg =
            Inr \<lparr>search_time_jst = now, departure_base_jst = now,
                 max_offset_minutes = ?off, routes = []\<rparr>"
    if rd: "\<forall>t \<in> set (trains (ichigaya_tameike tt)).
             \<exists>d. parse_hhmm_to_minutes (departure t) = Inr d"
  proof -
    from rd none have all: "\<forall>t \<in> set (trains (ichigaya_tameike tt)).
        \<exists>p. candidate_route tt ?b ?l t = Inr p" by blast
    from rd none have "\<forall>t \<in> set (trains (ichigaya_tameike tt)). routes_from tt ?b ?l t = []"
      by (auto simp add: routes_from_def)
    then have "concat (map (routes_from tt ?b ?l) (trains (ichigaya_tameike tt))) = []"
      by simp
    with routes_loop_all [OF all, of "[]"]
    have "routes_loop tt ?b ?l (trains (ichigaya_tameike tt)) [] = Inr []" by simp
    then show ?thesis by (simp add: api_routes_def Let_def)
  qed
  from wrap less empty answer show ?thesis by auto
qed
theorem midnight_window_empty_witness:
  "valid_datetime \<lparr>day = 0, hour = 23, minute = 50, second = 0\<rparr> \<and>
   1440 \<le> minute_of_day \<lparr>day = 0, hour = 23, minute = 50, second = 0\<rparr>
          + effective_max_offset None \<and>
   parse_hhmm_to_minutes ''07:00'' = Inr 420 \<and>
   minute_of_day (add_minutes \<lparr>day = 0, hour = 23, minute = 50, second = 0\<rparr>
     (effective_max_offset None)) = 20 \<and>
   api_routes scenario_timetable \<lparr>day = 0, hour = 23, minute = 50, second = 0\<rparr> None =
     Inr \<lparr>search_time_jst = \<lparr>day = 0, hour = 23, minute = 50, second = 0\<rparr>,
          departure_base_jst = \<lparr>day = 0, hour = 23, minute = 50, second = 0\<rparr>,
          max_offset_minutes = 30, routes = []\<rparr>"
proof -
  let ?now = "\<lparr>day = 0, hour = 23, minute = 50, second = 0\<rparr>"
  have v: "valid_datetime ?now" by (simp add: valid_datetime_def)
  have off: "effective_max_offset None = 30" by (simp add: effective_max_offset_def)
  have w: "1440 \<le> minute_of_day ?now + effective_max_offset None"
    by (simp add: minute_of_day_def off)
  have p: "parse_hhmm_to_minutes ''07:00'' = Inr 420" by code_simp
  have rd: "\<forall>t \<in> set (trains (ichigaya_tameike scenario_timetable)).
             \<exists>d. parse_hhmm_to_minutes (departure t) = Inr d"
    by (simp add: scenario_timetable_def TIMETABLE_def p)
  note m = midnight_window_empty [OF v w, of scenario_timetable]
  from m have "minute_of_day (add_minutes ?now (effective_max_offset None)) = 20"
    by (simp add: off minute_of_day_def)
  moreover from m rd have "api_routes scenario_timetable ?now None =
      Inr \<lparr>search_time_jst = ?now, departure_base_jst = ?now,
           max_offset_minutes = 30, routes = []\<rparr>"
    by (simp add: off)
  ultimately show ?thesis using v w p by blast
qed

section \<open>Clock texts of one day compare as their minutes\<close>

lemma digit_char_less:
  "x < 10 \<Longrightarrow> y < 10 \<Longrightarrow> digit_char x < digit_char y \<longleftrightarrow> x < y"
  by (simp add: less_char_def of_char_digit_char)

lemma digit_char_eq:
  "x < 10 \<Longrightarrow> y < 10 \<Longrightarrow> digit_char x = digit_char y \<longleftrightarrow> x = y"
  by (metis digit_val_digit_char)

lemma two_digit_less:
  assumes "x < y" "y < 100"
  shows "digit_char (x div 10) # digit_char (x mod 10) # s
       < digit_char (y div 10) # digit_char (y mod 10) # t"
proof -
  have lt: "x div 10 < 10" "x mod 10 < 10" "y div 10 < 10" "y mod 10 < 10"
    using assms by auto
  define qx rx qy ry where "qx = x div 10" and "rx = x mod 10"
    and "qy = y div 10" and "ry = y mod 10"
  have x: "x = qx * 10 + rx" and y: "y = qy * 10 + ry"
    by (simp_all add: qx_def rx_def qy_def ry_def)
  have le: "qx \<le> qy"
    unfolding qx_def qy_def using assms(1) by (intro div_le_mono) simp
  have lex: "qx < qy \<or> (qx = qy \<and> rx < ry)"
    using x y le assms(1) by linarith
  have lt': "qx < 10" "rx < 10" "qy < 10" "ry < 10"
    using lt by (simp_all add: qx_def rx_def qy_def ry_def)
  have "digit_char qx # digit_char rx # s < digit_char qy # digit_char ry # t"
  proof (cases "qx < qy")
    case True
    then have "digit_char qx < digit_char qy"
      using lt' by (simp add: digit_char_less)
    then show ?thesis by simp
  next
    case False
    with lex have "qx = qy" "rx < ry" by simp_all
    moreover from this have "digit_char rx < digit_char ry"
      using lt' by (simp add: digit_char_less)
    ultimately show ?thesis by simp
  qed
  then show ?thesis by (simp add: qx_def rx_def qy_def ry_def)
qed

lemma div_mod_lex:
  assumes "(a::int) < b"
  shows "a div 60 < b div 60 \<or> (a div 60 = b div 60 \<and> a mod 60 < b mod 60)"
proof -
  define qa ra qb rb where "qa = a div 60" and "ra = a mod 60"
    and "qb = b div 60" and "rb = b mod 60"
  have a: "a = qa * 60 + ra" and b: "b = qb * 60 + rb"
    by (simp_all add: qa_def ra_def qb_def rb_def)
  have le: "qa \<le> qb"
    unfolding qa_def qb_def using assms by (intro zdiv_mono1) simp_all
  have "qa < qb \<or> (qa = qb \<and> ra < rb)"
    using a b le assms by linarith
  then show ?thesis by (simp add: qa_def ra_def qb_def rb_def)
qed

lemma clock_text_less:
  assumes "ha < hb \<or> (ha = hb \<and> ma < mb)" "ha < 100" "hb < 100" "ma < 60" "mb < 60"
  shows "minutes_to_hhmm (int ha * 60 + int ma) < minutes_to_hhmm (int hb * 60 + int mb)"
proof -
  have fa: "minutes_to_hhmm (int ha * 60 + int ma) =
        [digit_char (ha div 10), digit_char (ha mod 10), CHR '':'',
         digit_char (ma div 10), digit_char (ma mod 10)]"
    using assms(2,4) by (rule minutes_to_hhmm_in_day)
  have fb: "minutes_to_hhmm (int hb * 60 + int mb) =
        [digit_char (hb div 10), digit_char (hb mod 10), CHR '':'',
         digit_char (mb div 10), digit_char (mb mod 10)]"
    using assms(3,5) by (rule minutes_to_hhmm_in_day)
  from assms(1) show ?thesis
  proof
    assume "ha < hb"
    then show ?thesis unfolding fa fb using assms(3) by (rule two_digit_less)
  next
    assume e: "ha = hb \<and> ma < mb"
    then have "ma < mb" by simp
    moreover have "mb < 100" using assms(5) by simp
    ultimately have "digit_char (ma div 10) # digit_char (ma mod 10) # []
             < digit_char (mb div 10) # digit_char (mb mod 10) # []"
      by (rule two_digit_less)
    with e show ?thesis unfolding fa fb by simp
  qed
qed

lemma minutes_to_hhmm_strict_mono:
  assumes "0 \<le> a" "a < b" "b < 1440"
  shows "minutes_to_hhmm a < minutes_to_hhmm b"
proof -
  define qa ra qb rb where "qa = a div 60" and "ra = a mod 60"
    and "qb = b div 60" and "rb = b mod 60"
  have qa: "0 \<le> qa" "qa < 24" and qb: "0 \<le> qb" "qb < 24"
    using assms by (simp_all add: qa_def qb_def)
  have ra: "0 \<le> ra" "ra < 60" and rb: "0 \<le> rb" "rb < 60"
    by (simp_all add: ra_def rb_def)
  have a: "a = int (nat qa) * 60 + int (nat ra)" using qa ra by (simp add: qa_def ra_def)
  have b: "b = int (nat qb) * 60 + int (nat rb)" using qb rb by (simp add: qb_def rb_def)
  have "qa < qb \<or> (qa = qb \<and> ra < rb)"
    using div_mod_lex [OF assms(2)] by (simp add: qa_def ra_def qb_def rb_def)
  then have lex: "nat qa < nat qb \<or> (nat qa = nat qb \<and> nat ra < nat rb)"
    using qa qb ra rb by auto
  have "nat qa < 100" "nat qb < 100" "nat ra < 60" "nat rb < 60"
    using qa qb ra rb by simp_all
  from clock_text_less [OF lex this] a b show ?thesis by simp
qed

lemma minutes_to_hhmm_le_iff:
  assumes "0 \<le> a" "a < 1440" "0 \<le> b" "b < 1440"
  shows "minutes_to_hhmm a \<le> minutes_to_hhmm b \<longleftrightarrow> a \<le> b"
proof
  assume le: "minutes_to_hhmm a \<le> minutes_to_hhmm b"
  show "a \<le> b"
  proof (rule ccontr)
    assume "\<not> a \<le> b"
    then have "minutes_to_hhmm b < minutes_to_hhmm a"
      using assms by (intro minutes_to_hhmm_strict_mono) simp_all
    with le show False by simp
  qed
next
  assume "a \<le> b"
  then consider "a = b" | "a < b" by linarith
  then show "minutes_to_hhmm a \<le> minutes_to_hhmm b"
  proof cases
    case 1
    then show ?thesis by simp
  next
    case 2
    then have "minutes_to_hhmm a < minutes_to_hhmm b"
      using assms by (intro minutes_to_hhmm_strict_mono) simp_all
    then show ?thesis by simp
  qed
qed

lemma route_departure_in_day:
  assumes "valid_datetime now" "api_routes tt now arg = Inr resp" "r \<in> set (routes resp)"
  shows "\<exists>d. 0 \<le> d \<and> d < 1440 \<and> departure_time r = minutes_to_hhmm d \<and>
             parse_hhmm_to_minutes (departure_time r) = Inr d"
proof -
  let ?b = "minute_of_day now"
  let ?l = "minute_of_day (add_minutes now (effective_max_offset arg))"
  from api_routes_member [OF assms(2,3)] obtain t1
    where "candidate_route tt ?b ?l t1 = Inr (Some r)" by blast
  from candidate_route_Some [OF this] obtain d
    where d: "?b \<le> d" "d \<le> ?l" "departure_time r = minutes_to_hhmm d" by blast
  have "0 \<le> d" "d < 1440"
    using d(1,2) minute_of_day_range [OF assms(1)] window_latest(2) [OF assms(1), of arg]
    by simp_all
  moreover from this have "parse_hhmm_to_minutes (minutes_to_hhmm d) = Inr d"
    by (intro parse_minutes_to_hhmm) simp_all
  ultimately show ?thesis using d(3) by auto
qed

section \<open>The route search: the order of the result\<close>

text \<open>
  C4. The itineraries of a response are in non-decreasing order of their
  \<open>departure_time\<close> texts, compared as texts; each such text is the clock text of the
  first-leg departure minute, these minutes are in non-decreasing order too, and for
  minutes of one day the clock texts compare exactly as the minutes do.
\<close>

theorem routes_sorted_by_departure:
  assumes "valid_datetime now" and "api_routes tt now arg = Inr resp"
  shows "sorted (map departure_time (routes resp)) \<and>
         (\<exists>ds. map (\<lambda>r. parse_hhmm_to_minutes (departure_time r)) (routes resp) = map Inr ds \<and>
               sorted ds) \<and>
         (\<forall>a b. 0 \<le> a \<and> a < 1440 \<and> 0 \<le> b \<and> b < 1440 \<longrightarrow>
                (minutes_to_hhmm a \<le> minutes_to_hhmm b \<longleftrightarrow> a \<le> b))"
proof -
  let ?g = "\<lambda>r. case parse_hhmm_to_minutes (departure_time r) of Inl e \<Rightarrow> 0 | Inr d \<Rightarrow> d"
  have srt: "sorted (map departure_time (routes resp))"
    unfolding api_routes_result(4) [OF assms(2)] by (rule sorted_sort_key)
  have day: "0 \<le> ?g r \<and> ?g r < 1440 \<and> departure_time r = minutes_to_hhmm (?g r) \<and>
             parse_hhmm_to_minutes (departure_time r) = Inr (?g r)"
    if "r \<in> set (routes resp)" for r
    using route_departure_in_day [OF assms that] by auto
  have "map (\<lambda>r. parse_hhmm_to_minutes (departure_time r)) (routes resp) =
        map Inr (map ?g (routes resp))"
    using day by simp
  moreover have "sorted (map ?g (routes resp))"
  proof -
    from srt have "sorted_wrt (\<lambda>r r'. departure_time r \<le> departure_time r') (routes resp)"
      by (simp add: sorted_map)
    then have "sorted_wrt (\<lambda>r r'. ?g r \<le> ?g r') (routes resp)"
    proof (rule sorted_wrt_mono_rel [rotated])
      fix r r'
      assume r: "r \<in> set (routes resp)" "r' \<in> set (routes resp)"
        and le: "departure_time r \<le> departure_time r'"
      from day [OF r(1)] day [OF r(2)] le
      have "minutes_to_hhmm (?g r) \<le> minutes_to_hhmm (?g r')" by simp
      with day [OF r(1)] day [OF r(2)] show "?g r \<le> ?g r'"
        using minutes_to_hhmm_le_iff [of "?g r" "?g r'"] by blast
    qed
    then show ?thesis by (simp add: sorted_map)
  qed
  ultimately have num: "\<exists>ds. map (\<lambda>r. parse_hhmm_to_minutes (departure_time r)) (routes resp) =
        map Inr ds \<and> sorted ds"
    by blast
  have iff: "minutes_to_hhmm a \<le> minutes_to_hhmm b \<longleftrightarrow> a \<le> b"
    if "0 \<le> a \<and> a < 1440 \<and> 0 \<le> b \<and> b < 1440" for a b
    using that by (intro minutes_to_hhmm_le_iff) simp_all
  from srt num iff show ?thesis by blast
qed

theorem routes_sorted_by_departure_witness:
  "valid_datetime scenario_now \<and>
   api_routes unsorted_timetable scenario_now None =
     Inr \<lparr>search_time_jst = scenario_now, departure_base_jst = scenario_now,
          max_offset_minutes = 30, routes = [scenario_route, later_route]\<rparr> \<and>
   map departure_time [scenario_route, later_route] = [''07:00'', ''07:20''] \<and>
   sorted (map departure_time [scenario_route, later_route]) \<and>
   (minutes_to_hhmm 420 \<le> minutes_to_hhmm 440 \<longleftrightarrow> (420::int) \<le> 440)"
proof -
  note t = routes_sorted_by_departure [OF scenario_valid unsorted_response]
  from t have "sorted (map departure_time [scenario_route, later_route])" by simp
  moreover from t have "minutes_to_hhmm 420 \<le> minutes_to_hhmm 440 \<longleftrightarrow> (420::int) \<le> 440"
    by simp
  moreover have "map departure_time [scenario_route, later_route] = [''07:00'', ''07:20'']"
    by (simp add: scenario_route_def later_route_def)
  ultimately show ?thesis using scenario_valid unsorted_response by blast
qed

section \<open>The route search: how many itineraries a train yields\<close>

lemma routes_from_leg1:
  "r \<in> set (routes_from tt b l t) \<Longrightarrow> take 1 (leg_trains_of r) = [t]"
proof -
  assume "r \<in> set (routes_from tt b l t)"
  then have "candidate_route tt b l t = Inr (Some r)" by (simp add: routes_from_member)
  from candidate_route_Some [OF this] obtain t2 t3
    where "leg_trains_of r = [t, t2, t3]" by blast
  then show ?thesis by simp
qed

lemma routes_from_length: "length (routes_from tt b l t) \<le> 1"
  by (simp add: routes_from_def split: sum.splits option.splits)

lemma routes_from_count:
  "length (filter (\<lambda>r. take 1 (leg_trains_of r) = [t1]) (routes_from tt b l t))
     \<le> length (filter (\<lambda>u. u = t1) [t])"
proof (cases "t = t1")
  case True
  then show ?thesis
    using routes_from_length [of tt b l t]
    by (simp add: le_trans [OF length_filter_le])
next
  case False
  have "filter (\<lambda>r. take 1 (leg_trains_of r) = [t1]) (routes_from tt b l t) = []"
    using False routes_from_leg1 [of _ tt b l t] by (auto simp add: filter_empty_conv)
  then show ?thesis by simp
qed

lemma routes_concat_length:
  "length (concat (map (routes_from tt b l) ts)) \<le> length ts"
proof (induction ts)
  case Nil
  then show ?case by simp
next
  case (Cons t ts)
  then show ?case using routes_from_length [of tt b l t] by simp
qed

lemma routes_concat_count:
  "length (filter (\<lambda>r. take 1 (leg_trains_of r) = [t1]) (concat (map (routes_from tt b l) ts)))
     \<le> length (filter (\<lambda>u. u = t1) ts)"
proof (induction ts)
  case Nil
  then show ?case by simp
next
  case (Cons t ts)
  have "length (filter (\<lambda>r. take 1 (leg_trains_of r) = [t1])
                  (concat (map (routes_from tt b l) (t # ts)))) =
        length (filter (\<lambda>r. take 1 (leg_trains_of r) = [t1]) (routes_from tt b l t)) +
        length (filter (\<lambda>r. take 1 (leg_trains_of r) = [t1])
                  (concat (map (routes_from tt b l) ts)))"
    by simp
  also have "\<dots> \<le> length (filter (\<lambda>u. u = t1) [t]) + length (filter (\<lambda>u. u = t1) ts)"
    using routes_from_count [of t1 tt b l t] Cons.IH by (rule add_mono)
  also have "\<dots> = length (filter (\<lambda>u. u = t1) (t # ts))" by simp
  finally show ?case .
qed

lemma distinct_count_le_1: "distinct xs \<Longrightarrow> length (filter (\<lambda>u. u = a) xs) \<le> 1"
  by (induction xs) (auto simp add: filter_empty_conv)

lemma filter_sort_key_length:
  "length (filter P (sort_key f xs)) = length (filter P xs)"
  by (simp add: filter_sort)

lemma duplicated_response:
  "api_routes duplicated_timetable scenario_now None =
     Inr \<lparr>search_time_jst = scenario_now, departure_base_jst = scenario_now,
          max_offset_minutes = 30, routes = [scenario_route, scenario_route]\<rparr>"
  by code_simp

lemma find_next_loop_parses:
  "find_next_loop ts e cand = Inr r \<Longrightarrow>
   \<forall>t \<in> set ts. \<exists>d. parse_hhmm_to_minutes (departure t) = Inr d"
proof (induction ts arbitrary: cand)
  case Nil
  then show ?case by simp
next
  case (Cons t ts)
  then show ?case
    by (fastforce split: sum.splits if_splits option.splits prod.splits)
qed

lemma find_next_train_parses:
  assumes "find_next_train trs e = Inr r"
  shows "\<forall>t \<in> set trs. \<exists>d. parse_hhmm_to_minutes (departure t) = Inr d"
proof -
  from assms obtain c where "find_next_loop trs e None = Inr c"
    by (auto simp add: find_next_train_def split: sum.splits)
  then show ?thesis by (rule find_next_loop_parses)
qed

lemma find_next_train_least:
  assumes "find_next_train trs e = Inr (Some t)"
    and "parse_hhmm_to_minutes (departure t) = Inr d"
    and "u \<in> set trs" and "parse_hhmm_to_minutes (departure u) = Inr du" and "e \<le> du"
  shows "d \<le> du"
proof -
  let ?dep = "\<lambda>t. case parse_hhmm_to_minutes (departure t) of Inl x \<Rightarrow> 0 | Inr d \<Rightarrow> d"
  have rd: "\<forall>t \<in> set trs. parse_hhmm_to_minutes (departure t) = Inr (?dep t)"
    using find_next_train_parses [OF assms(1)] by fastforce
  from find_next_train_Some(3) [OF rd assms(1)] assms(3)
  have "e \<le> ?dep u \<longrightarrow> ?dep t \<le> ?dep u" by blast
  with assms(2,4,5) show ?thesis by simp
qed

text \<open>
  C5. Each row of the first leg yields at most one itinerary: the response has no
  more itineraries than the first leg has rows, the itineraries starting with a given train
  are no more than the rows equal to it (so at most one when the rows are distinct), and
  two itineraries of a response that start with the same train are the same itinerary.
  The second and third trains are chosen greedily: the second is the matcher's answer on
  the second leg for the first train's arrival plus 5 and departs no later than any train
  of that leg departing at or after that bound, the third is the matcher's answer on the
  third leg for the second train's arrival plus 7 and is earliest in the same way; no other
  combination is tried.
\<close>

theorem one_itinerary_per_leg1_row:
  assumes "api_routes tt now arg = Inr resp"
  shows "length (routes resp) \<le> length (trains (ichigaya_tameike tt)) \<and>
         (\<forall>t1. length (filter (\<lambda>r. take 1 (leg_trains_of r) = [t1]) (routes resp))
                 \<le> length (filter (\<lambda>u. u = t1) (trains (ichigaya_tameike tt)))) \<and>
         (distinct (trains (ichigaya_tameike tt)) \<longrightarrow>
            (\<forall>t1. length (filter (\<lambda>r. take 1 (leg_trains_of r) = [t1]) (routes resp)) \<le> 1)) \<and>
         (\<forall>r \<in> set (routes resp). \<forall>r' \<in> set (routes resp).
            take 1 (leg_trains_of r) = take 1 (leg_trains_of r') \<longrightarrow> r = r') \<and>
         (\<forall>r \<in> set (routes resp). \<exists>t1 t2 t3 arr1 dep2 arr2 dep3.
            leg_trains_of r = [t1, t2, t3] \<and>
            t1 \<in> set (trains (ichigaya_tameike tt)) \<and>
            parse_hhmm_to_minutes (arrival t1) = Inr arr1 \<and>
            find_next_train (trains (tameike_shimbashi tt)) (arr1 + 5) = Inr (Some t2) \<and>
            parse_hhmm_to_minutes (departure t2) = Inr dep2 \<and>
            (\<forall>u \<in> set (trains (tameike_shimbashi tt)). \<forall>du.
               parse_hhmm_to_minutes (departure u) = Inr du \<and> arr1 + 5 \<le> du \<longrightarrow> dep2 \<le> du) \<and>
            parse_hhmm_to_minutes (arrival t2) = Inr arr2 \<and>
            find_next_train (trains (shimbashi_kamakura tt)) (arr2 + 7) = Inr (Some t3) \<and>
            parse_hhmm_to_minutes (departure t3) = Inr dep3 \<and>
            (\<forall>u \<in> set (trains (shimbashi_kamakura tt)). \<forall>du.
               parse_hhmm_to_minutes (departure u) = Inr du \<and> arr2 + 7 \<le> du \<longrightarrow> dep3 \<le> du))"
proof -
  let ?b = "minute_of_day now"
  let ?l = "minute_of_day (add_minutes now (effective_max_offset arg))"
  let ?leg1 = "trains (ichigaya_tameike tt)"
  let ?leg2 = "trains (tameike_shimbashi tt)"
  let ?leg3 = "trains (shimbashi_kamakura tt)"
  note rs = api_routes_result(4) [OF assms]
  have len: "length (routes resp) \<le> length ?leg1"
    unfolding rs using routes_concat_length [of tt ?b ?l ?leg1] by simp
  have cnt: "length (filter (\<lambda>r. take 1 (leg_trains_of r) = [t1]) (routes resp))
                 \<le> length (filter (\<lambda>u. u = t1) ?leg1)" for t1
    unfolding rs filter_sort_key_length by (rule routes_concat_count)
  have one: "length (filter (\<lambda>r. take 1 (leg_trains_of r) = [t1]) (routes resp)) \<le> 1"
    if "distinct ?leg1" for t1
    using cnt [of t1] distinct_count_le_1 [OF that, of t1] by (rule le_trans)
  have same: "r = r'"
    if r: "r \<in> set (routes resp)" and r': "r' \<in> set (routes resp)"
      and e: "take 1 (leg_trains_of r) = take 1 (leg_trains_of r')" for r r'
  proof -
    from api_routes_member [OF assms r] obtain t
      where t: "candidate_route tt ?b ?l t = Inr (Some r)" by blast
    from api_routes_member [OF assms r'] obtain t'
      where t': "candidate_route tt ?b ?l t' = Inr (Some r')" by blast
    from t have "take 1 (leg_trains_of r) = [t]"
      by (intro routes_from_leg1 [of r tt ?b ?l t]) (simp add: routes_from_member)
    moreover from t' have "take 1 (leg_trains_of r') = [t']"
      by (intro routes_from_leg1 [of r' tt ?b ?l t']) (simp add: routes_from_member)
    ultimately have "t = t'" using e by simp
    with t t' show ?thesis by simp
  qed
  have greedy: "\<exists>t1 t2 t3 arr1 dep2 arr2 dep3.
            leg_trains_of r = [t1, t2, t3] \<and>
            t1 \<in> set ?leg1 \<and>
            parse_hhmm_to_minutes (arrival t1) = Inr arr1 \<and>
            find_next_train ?leg2 (arr1 + 5) = Inr (Some t2) \<and>
            parse_hhmm_to_minutes (departure t2) = Inr dep2 \<and>
            (\<forall>u \<in> set ?leg2. \<forall>du.
               parse_hhmm_to_minutes (departure u) = Inr du \<and> arr1 + 5 \<le> du \<longrightarrow> dep2 \<le> du) \<and>
            parse_hhmm_to_minutes (arrival t2) = Inr arr2 \<and>
            find_next_train ?leg3 (arr2 + 7) = Inr (Some t3) \<and>
            parse_hhmm_to_minutes (departure t3) = Inr dep3 \<and>
            (\<forall>u \<in> set ?leg3. \<forall>du.
               parse_hhmm_to_minutes (departure u) = Inr du \<and> arr2 + 7 \<le> du \<longrightarrow> dep3 \<le> du)"
    if r: "r \<in> set (routes resp)" for r
  proof -
    from api_routes_member [OF assms r] obtain t1
      where t1: "t1 \<in> set ?leg1"
        and c: "candidate_route tt ?b ?l t1 = Inr (Some r)" by blast
    from candidate_route_Some [OF c] obtain arr1 t2 arr2 t3
      where a1: "parse_hhmm_to_minutes (arrival t1) = Inr arr1"
        and f2: "find_next_train ?leg2 (arr1 + 5) = Inr (Some t2)"
        and a2: "parse_hhmm_to_minutes (arrival t2) = Inr arr2"
        and f3: "find_next_train ?leg3 (arr2 + 7) = Inr (Some t3)"
        and lt: "leg_trains_of r = [t1, t2, t3]"
      by blast
    from find_next_train_found [OF f2] obtain dep2
      where d2: "parse_hhmm_to_minutes (departure t2) = Inr dep2" by blast
    from find_next_train_found [OF f3] obtain dep3
      where d3: "parse_hhmm_to_minutes (departure t3) = Inr dep3" by blast
    have m2: "\<forall>u \<in> set ?leg2. \<forall>du.
               parse_hhmm_to_minutes (departure u) = Inr du \<and> arr1 + 5 \<le> du \<longrightarrow> dep2 \<le> du"
      using find_next_train_least [OF f2 d2] by blast
    have m3: "\<forall>u \<in> set ?leg3. \<forall>du.
               parse_hhmm_to_minutes (departure u) = Inr du \<and> arr2 + 7 \<le> du \<longrightarrow> dep3 \<le> du"
      using find_next_train_least [OF f3 d3] by blast
    from lt t1 a1 f2 d2 m2 a2 f3 d3 m3 show ?thesis by blast
  qed
  show ?thesis
  proof (intro conjI)
    show "length (routes resp) \<le> length ?leg1" by (rule len)
    show "\<forall>t1. length (filter (\<lambda>r. take 1 (leg_trains_of r) = [t1]) (routes resp))
                 \<le> length (filter (\<lambda>u. u = t1) ?leg1)"
      using cnt by blast
    show "distinct ?leg1 \<longrightarrow>
            (\<forall>t1. length (filter (\<lambda>r. take 1 (leg_trains_of r) = [t1]) (routes resp)) \<le> 1)"
      using one by blast
    show "\<forall>r \<in> set (routes resp). \<forall>r' \<in> set (routes resp).
            take 1 (leg_trains_of r) = take 1 (leg_trains_of r') \<longrightarrow> r = r'"
      using same by blast
    show "\<forall>r \<in> set (routes resp). \<exists>t1 t2 t3 arr1 dep2 arr2 dep3.
            leg_trains_of r = [t1, t2, t3] \<and>
            t1 \<in> set ?leg1 \<and>
            parse_hhmm_to_minutes (arrival t1) = Inr arr1 \<and>
            find_next_train ?leg2 (arr1 + 5) = Inr (Some t2) \<and>
            parse_hhmm_to_minutes (departure t2) = Inr dep2 \<and>
            (\<forall>u \<in> set ?leg2. \<forall>du.
               parse_hhmm_to_minutes (departure u) = Inr du \<and> arr1 + 5 \<le> du \<longrightarrow> dep2 \<le> du) \<and>
            parse_hhmm_to_minutes (arrival t2) = Inr arr2 \<and>
            find_next_train ?leg3 (arr2 + 7) = Inr (Some t3) \<and>
            parse_hhmm_to_minutes (departure t3) = Inr dep3 \<and>
            (\<forall>u \<in> set ?leg3. \<forall>du.
               parse_hhmm_to_minutes (departure u) = Inr du \<and> arr2 + 7 \<le> du \<longrightarrow> dep3 \<le> du)"
      using greedy by blast
  qed
qed

theorem one_itinerary_per_leg1_row_witness:
  "api_routes unsorted_timetable scenario_now None =
     Inr \<lparr>search_time_jst = scenario_now, departure_base_jst = scenario_now,
          max_offset_minutes = 30, routes = [scenario_route, later_route]\<rparr> \<and>
   distinct (trains (ichigaya_tameike unsorted_timetable)) \<and>
   length [scenario_route, later_route] \<le> length (trains (ichigaya_tameike unsorted_timetable)) \<and>
   length (filter (\<lambda>r. take 1 (leg_trains_of r) = [\<lparr>departure = ''07:00'', arrival = ''07:12''\<rparr>])
             [scenario_route, later_route]) \<le> 1"
proof -
  have d: "distinct (trains (ichigaya_tameike unsorted_timetable))"
    by (simp add: unsorted_timetable_def TIMETABLE_def)
  note t = one_itinerary_per_leg1_row [OF unsorted_response]
  from t have "length [scenario_route, later_route]
      \<le> length (trains (ichigaya_tameike unsorted_timetable))"
    by simp
  moreover from t d
  have "length (filter (\<lambda>r. take 1 (leg_trains_of r) = [\<lparr>departure = ''07:00'', arrival = ''07:12''\<rparr>])
             [scenario_route, later_route]) \<le> 1"
    by simp
  ultimately show ?thesis using unsorted_response d by blast
qed

text \<open>
  C5, repeated rows. The bound is per row, not per train: with the row \<open>{07:00, 07:12}\<close>
  listed twice on the first leg, the response holds the same itinerary twice, that is two
  itineraries with the same first-leg train.
\<close>

theorem duplicated_row_two_itineraries:
  "trains (ichigaya_tameike duplicated_timetable) =
     [\<lparr>departure = ''07:00'', arrival = ''07:12''\<rparr>,
      \<lparr>departure = ''07:00'', arrival = ''07:12''\<rparr>] \<and>
   api_routes duplicated_timetable scenario_now None =
     Inr \<lparr>search_time_jst = scenario_now, departure_base_jst = scenario_now,
          max_offset_minutes = 30, routes = [scenario_route, scenario_route]\<rparr> \<and>
   leg_trains_of scenario_route =
     [\<lparr>departure = ''07:00'', arrival = ''07:12''\<rparr>,
      \<lparr>departure = ''07:17'', arrival = ''07:30''\<rparr>,
      \<lparr>departure = ''07:37'', arrival = ''08:05''\<rparr>] \<and>
   length [scenario_route, scenario_route] = 2"
proof -
  have "trains (ichigaya_tameike duplicated_timetable) =
     [\<lparr>departure = ''07:00'', arrival = ''07:12''\<rparr>,
      \<lparr>departure = ''07:00'', arrival = ''07:12''\<rparr>]"
    by (simp add: duplicated_timetable_def TIMETABLE_def)
  moreover have "leg_trains_of scenario_route =
     [\<lparr>departure = ''07:00'', arrival = ''07:12''\<rparr>,
      \<lparr>departure = ''07:17'', arrival = ''07:30''\<rparr>,
      \<lparr>departure = ''07:37'', arrival = ''08:05''\<rparr>]"
    by (simp add: leg_trains_of_def scenario_route_def)
  ultimately show ?thesis using duplicated_response by simp
qed

end
